theory Spec2Isabelle
  imports Complex_Main "HOL-Library.Char_ord" "HOL-Library.List_Lexorder"
begin

section \<open>Character-level HMM spell corrector (spell\_corrector.py)\<close>

text \<open>
  The development embeds the class \<open>SpellCheckerHMM\<close>: the counting loop of
  \<open>train\<close>, \<open>_finalize_probabilities\<close>, the three log-probability lookups, the two
  distribution inspectors, and the Viterbi search of \<open>decode_word\<close> with
  \<open>decode_text\<close> on top of it.

  Modelling conventions.
  \<^item> A Python \<open>str\<close> is a \<open>string\<close>, read as a sequence of the code points 0 to 255
    (Latin-1). On these the built-in methods \<open>lower\<close>, \<open>isupper\<close>, \<open>strip\<close> and
    \<open>split\<close> have their Python 3 meaning. So have \<open>upper\<close> and \<open>capitalize\<close>,
    including the sharp s (U+00DF), whose uppercase form is \<open>SS\<close> and whose titlecase
    form is \<open>Ss\<close>, with two exceptions: the uppercase forms of U+00B5 and U+00FF are
    U+039C and U+0178, which are no such code points, and the model leaves these two
    characters as they are. A statement about the value of an uppercased or
    capitalised string is made for ASCII text only. Text with code points above 255
    is outside the model.
  \<^item> Dictionary keys are strings, as in the source: a state is a one-character
    string and the end sentinel is the string \<open><END>\<close>.
  \<^item> A \<open>dict\<close>, \<open>Counter\<close> or \<open>defaultdict\<close> is an association list in insertion
    order, which is the order Python iterates it in. A \<open>set\<close> is a HOL set.
  \<^item> A \<open>float\<close> score is either minus infinity or a finite real; \<open>math.log\<close> is
    \<open>ln\<close>, and sums of finite scores are exact (rounding is idealised away).
  \<^item> Reading a missing key of a \<open>defaultdict\<close> with \<open>d[k]\<close> inserts the default
    value; the lookups that do so return the updated model.
  \<^item> \<open>d[k]\<close> on a plain \<open>dict\<close> raises \<open>KeyError\<close> for a missing key: the decoder
    returns a value of a sum type.
\<close>

subsection \<open>Strings\<close>

text \<open>\<open>c.isupper()\<close> and \<open>c.islower()\<close> for a single character.\<close>

definition is_upper_char :: "char \<Rightarrow> bool" where
  "is_upper_char c =
     ((CHR ''A'' \<le> c \<and> c \<le> CHR ''Z'') \<or> (CHR 0xC0 \<le> c \<and> c \<le> CHR 0xDE \<and> c \<noteq> CHR 0xD7))"

definition is_lower_char :: "char \<Rightarrow> bool" where
  "is_lower_char c =
     ((CHR ''a'' \<le> c \<and> c \<le> CHR ''z'') \<or> c = CHR 0xAA \<or> c = CHR 0xB5 \<or> c = CHR 0xBA
      \<or> (CHR 0xDF \<le> c \<and> c \<noteq> CHR 0xF7))"

text \<open>\<open>c.lower()\<close>: the uppercase letters move up by 32.\<close>

definition lower_char :: "char \<Rightarrow> char" where
  "lower_char c = (if is_upper_char c then char_of (of_char c + (32::nat)) else c)"

text \<open>
  \<open>c.upper()\<close>: the sharp s becomes \<open>SS\<close>; the letters a to z and U+00E0 to U+00FE
  (but not the division sign U+00F7) move down by 32; U+00B5 and U+00FF stay (see
  above); every other character stays, as in Python.
\<close>

definition upper_char :: "char \<Rightarrow> string" where
  "upper_char c =
     (if c = CHR 0xDF then ''SS''
      else if (CHR ''a'' \<le> c \<and> c \<le> CHR ''z'') \<or> (CHR 0xE0 \<le> c \<and> c \<le> CHR 0xFE \<and> c \<noteq> CHR 0xF7)
      then [char_of (of_char c - (32::nat))]
      else [c])"

text \<open>\<open>c.title()\<close>: as \<open>c.upper()\<close>, but the sharp s becomes \<open>Ss\<close>.\<close>

definition title_char :: "char \<Rightarrow> string" where
  "title_char c = (if c = CHR 0xDF then ''Ss'' else upper_char c)"

text \<open>The blanks of \<open>str.strip()\<close>, \<open>str.split()\<close> and \<open>str.isspace()\<close>.\<close>

definition is_space :: "char \<Rightarrow> bool" where
  "is_space c = (c \<in> set [CHR 0x09, CHR 0x0A, CHR 0x0B, CHR 0x0C, CHR 0x0D,
                           CHR 0x1C, CHR 0x1D, CHR 0x1E, CHR 0x1F, CHR 0x20,
                           CHR 0x85, CHR 0xA0])"

definition lower :: "string \<Rightarrow> string" where
  "lower s = map lower_char s"

definition upper :: "string \<Rightarrow> string" where
  "upper s = concat (map upper_char s)"

text \<open>
  \<open>str.isupper\<close>: no lowercase character and at least one uppercase character
  (Latin-1 has no titlecase character).
\<close>

definition isupper :: "string \<Rightarrow> bool" where
  "isupper s = ((\<forall>c \<in> set s. \<not> is_lower_char c) \<and> (\<exists>c \<in> set s. is_upper_char c))"

text \<open>\<open>str.capitalize\<close>: first character in titlecase, the rest lowercased.\<close>

fun capitalize :: "string \<Rightarrow> string" where
  "capitalize [] = []"
| "capitalize (c # cs) = title_char c @ lower cs"

text \<open>\<open>str.strip()\<close>: leading and trailing blanks removed.\<close>

definition strip :: "string \<Rightarrow> string" where
  "strip s = rev (dropWhile is_space (rev (dropWhile is_space s)))"

text \<open>\<open>str.split()\<close>: the maximal runs of non-blank characters.\<close>

fun split_from :: "string \<Rightarrow> string \<Rightarrow> string list" where
  "split_from cur [] = (if cur = [] then [] else [cur])"
| "split_from cur (c # cs) =
     (if is_space c then (if cur = [] then split_from [] cs else cur # split_from [] cs)
      else split_from (cur @ [c]) cs)"

definition split :: "string \<Rightarrow> string list" where
  "split s = split_from [] s"

text \<open>\<open>sep.join(xs)\<close>.\<close>

fun join :: "string \<Rightarrow> string list \<Rightarrow> string" where
  "join sep [] = []"
| "join sep [x] = x"
| "join sep (x # y # ys) = x @ sep @ join sep (y # ys)"

text \<open>\<open>list(s)\<close>, and iteration over a string: its one-character strings.\<close>

definition chars :: "string \<Rightarrow> string list" where
  "chars s = map (\<lambda>c. [c]) s"

definition END_STATE :: string where
  "END_STATE = ''<END>''"

subsection \<open>Dictionaries and counters\<close>

type_synonym 'v dict = "(string \<times> 'v) list"

text \<open>\<open>d.get(k)\<close>.\<close>

definition dict_get :: "'v dict \<Rightarrow> string \<Rightarrow> 'v option" where
  "dict_get d k = map_of d k"

text \<open>\<open>d[k] = v\<close>: an existing key keeps its position, a new key goes last.\<close>

fun dict_set :: "'v dict \<Rightarrow> string \<Rightarrow> 'v \<Rightarrow> 'v dict" where
  "dict_set [] k v = [(k, v)]"
| "dict_set ((k', v') # d) k v = (if k' = k then (k, v) # d else (k', v') # dict_set d k v)"

text \<open>\<open>k in d\<close>.\<close>

definition dict_mem :: "'v dict \<Rightarrow> string \<Rightarrow> bool" where
  "dict_mem d k = (k \<in> set (map fst d))"

text \<open>\<open>c.get(k, 0)\<close>, which is also \<open>c[k]\<close> on a \<open>Counter\<close>.\<close>

definition counter_get :: "nat dict \<Rightarrow> string \<Rightarrow> nat" where
  "counter_get c k = (case dict_get c k of None \<Rightarrow> 0 | Some n \<Rightarrow> n)"

text \<open>\<open>c[k] += 1\<close>.\<close>

definition counter_incr :: "nat dict \<Rightarrow> string \<Rightarrow> nat dict" where
  "counter_incr c k = dict_set c k (counter_get c k + 1)"

text \<open>
  \<open>d[k]\<close> on a \<open>defaultdict\<close>: the stored value, or a fresh default that is stored
  under \<open>k\<close> before it is returned. The pair is the value and the dictionary after
  the read.
\<close>

definition defaultdict_getitem :: "'v \<Rightarrow> 'v dict \<Rightarrow> string \<Rightarrow> 'v \<times> 'v dict" where
  "defaultdict_getitem dflt d k =
     (case dict_get d k of Some v \<Rightarrow> (v, d) | None \<Rightarrow> (dflt, d @ [(k, dflt)]))"

text \<open>\<open>d[k1][k2] += 1\<close> on a \<open>defaultdict(Counter)\<close>.\<close>

definition nested_incr :: "nat dict dict \<Rightarrow> string \<Rightarrow> string \<Rightarrow> nat dict dict" where
  "nested_incr d k1 k2 =
     (let (c, d') = defaultdict_getitem [] d k1 in dict_set d' k1 (counter_incr c k2))"

subsection \<open>Scores\<close>

datatype score = NegInf | Fin real

fun score_add :: "score \<Rightarrow> score \<Rightarrow> score" where
  "score_add (Fin a) (Fin b) = Fin (a + b)"
| "score_add _ _ = NegInf"

fun score_gt :: "score \<Rightarrow> score \<Rightarrow> bool" where
  "score_gt (Fin a) (Fin b) = (a > b)"
| "score_gt (Fin a) NegInf = True"
| "score_gt NegInf _ = False"

text \<open>\<open>math.log(count / total)\<close> for positive integers.\<close>

definition log_ratio :: "nat \<Rightarrow> nat \<Rightarrow> score" where
  "log_ratio cnt tot = Fin (ln (real cnt / real tot))"

subsection \<open>The model\<close>

record model =
  states :: "string list"
  state_set :: "string set"
  start_counts :: "nat dict"
  start_total :: nat
  transition_counts :: "nat dict dict"
  transition_totals :: "nat dict"
  emission_counts :: "nat dict dict"
  emission_totals :: "nat dict"
  start_log_probs :: "score dict"
  transition_log_probs :: "score dict dict"
  emission_log_probs :: "score dict dict"

text \<open>\<open>SpellCheckerHMM.__init__\<close>.\<close>

definition init :: model where
  "init = \<lparr> states = [], state_set = {}, start_counts = [], start_total = 0,
            transition_counts = [], transition_totals = [],
            emission_counts = [], emission_totals = [],
            start_log_probs = [], transition_log_probs = [], emission_log_probs = [] \<rparr>"

subsection \<open>Training\<close>

text \<open>The loop \<open>for idx in range(len(letters) - 1)\<close> of \<open>train\<close>.\<close>

definition transition_step :: "string list \<Rightarrow> model \<Rightarrow> nat \<Rightarrow> model" where
  "transition_step letters m idx =
     (let curr = letters ! idx; nxt = letters ! (idx + 1)
      in m\<lparr> transition_counts := nested_incr (transition_counts m) curr nxt,
             transition_totals := counter_incr (transition_totals m) curr \<rparr>)"

text \<open>The loop \<open>for idx, state_char in enumerate(letters)\<close> of \<open>train\<close>.\<close>

definition emission_step :: "string \<Rightarrow> model \<Rightarrow> nat \<times> string \<Rightarrow> model" where
  "emission_step typed m p =
     (let idx = fst p; state_char = snd p
      in if idx \<ge> length typed then m
         else let typed_char = [typed ! idx]
              in m\<lparr> emission_counts := nested_incr (emission_counts m) state_char typed_char,
                     emission_totals := counter_incr (emission_totals m) state_char \<rparr>)"

text \<open>
  The body of the training loop after the emptiness test, on the trimmed and
  lowercased pair. \<open>letters\<close> is non-empty here, so \<open>letters[0]\<close> and \<open>letters[-1]\<close>
  are \<open>hd\<close> and \<open>last\<close>.
\<close>

definition record_pair :: "model \<Rightarrow> string \<Rightarrow> string \<Rightarrow> model" where
  "record_pair m correct typed =
     (let m1 = m\<lparr> state_set := state_set m \<union> set (chars correct) \<rparr>;
          letters = chars correct
      in if letters = [] then m1
         else
          let m2 = m1\<lparr> start_counts := counter_incr (start_counts m1) (hd letters),
                       start_total := start_total m1 + 1 \<rparr>;
              m3 = foldl (transition_step letters) m2 [0 ..< length letters - 1];
              last_state = last letters;
              m4 = m3\<lparr> transition_counts :=
                          nested_incr (transition_counts m3) last_state END_STATE,
                        transition_totals := counter_incr (transition_totals m3) last_state \<rparr>
          in foldl (emission_step typed) m4 (enumerate 0 letters))"

text \<open>One iteration of \<open>for correct_raw, typed_raw in pairs\<close>.\<close>

definition train_pair :: "model \<Rightarrow> string \<times> string \<Rightarrow> model" where
  "train_pair m p =
     (let correct = lower (strip (fst p)); typed = lower (strip (snd p))
      in if correct = [] \<or> typed = [] then m else record_pair m correct typed)"

subsection \<open>Finalisation\<close>

text \<open>The first loop of \<open>_finalize_probabilities\<close>.\<close>

definition finalize_start :: "model \<Rightarrow> string \<Rightarrow> model" where
  "finalize_start m state =
     (let cnt = counter_get (start_counts m) state
      in if start_total m = 0 \<or> cnt = 0
         then m\<lparr> start_log_probs := dict_set (start_log_probs m) state NegInf \<rparr>
         else m\<lparr> start_log_probs :=
                   dict_set (start_log_probs m) state (log_ratio cnt (start_total m)) \<rparr>)"

text \<open>
  \<open>table[key][sub] = v\<close> on a \<open>defaultdict(dict)\<close>: the inner dictionary is created on
  first use.
\<close>

definition nested_set :: "'v dict dict \<Rightarrow> string \<Rightarrow> string \<Rightarrow> 'v \<Rightarrow> 'v dict dict" where
  "nested_set d k1 k2 v =
     (let (inner, d') = defaultdict_getitem [] d k1 in dict_set d' k1 (dict_set inner k2 v))"

text \<open>The inner loop over \<open>counts.items()\<close>, shared by the second and third loop.\<close>

definition finalize_row :: "string \<Rightarrow> nat \<Rightarrow> score dict dict \<Rightarrow> string \<times> nat \<Rightarrow> score dict dict"
  where
  "finalize_row key tot table item =
     (if snd item = 0 then table
      else nested_set table key (fst item) (log_ratio (snd item) tot))"

definition finalize_transition :: "model \<Rightarrow> string \<Rightarrow> model" where
  "finalize_transition m prev_state =
     (let tot = counter_get (transition_totals m) prev_state
      in if tot = 0 then m
         else let (row, tc) = defaultdict_getitem [] (transition_counts m) prev_state
              in m\<lparr> transition_counts := tc,
                     transition_log_probs :=
                       foldl (finalize_row prev_state tot) (transition_log_probs m) row \<rparr>)"

definition finalize_emission :: "model \<Rightarrow> string \<Rightarrow> model" where
  "finalize_emission m state =
     (let tot = counter_get (emission_totals m) state
      in if tot = 0 then m
         else let (row, ec) = defaultdict_getitem [] (emission_counts m) state
              in m\<lparr> emission_counts := ec,
                     emission_log_probs :=
                       foldl (finalize_row state tot) (emission_log_probs m) row \<rparr>)"

definition finalize_probabilities :: "model \<Rightarrow> model" where
  "finalize_probabilities m =
     (let m0 = m\<lparr> start_log_probs := [], transition_log_probs := [],
                  emission_log_probs := [] \<rparr>
      in if states m0 = [] then m0
         else
          let m1 = foldl finalize_start m0 (states m0);
              m2 = foldl finalize_transition m1 (states m1)
          in foldl finalize_emission m2 (states m2))"

text \<open>\<open>train\<close>: the counting loop, the alphabet, the tables.\<close>

definition train :: "(string \<times> string) list \<Rightarrow> model \<Rightarrow> model" where
  "train pairs m =
     (let m1 = foldl train_pair m pairs;
          m2 = m1\<lparr> state_set := state_set m1 - {[CHR 0x0A]} \<rparr>;
          m3 = m2\<lparr> states := sorted_list_of_set (state_set m2) \<rparr>
      in finalize_probabilities m3)"

subsection \<open>Log-probability lookups\<close>

text \<open>The guarded logarithm \<open>math.log(prob) if prob > 0 else float("-inf")\<close>.\<close>

definition log_guarded :: "nat \<Rightarrow> nat \<Rightarrow> score" where
  "log_guarded cnt tot = (if real cnt / real tot > 0 then log_ratio cnt tot else NegInf)"

text \<open>\<open>_log_start_prob\<close>. It reads a \<open>Counter\<close> and a plain dictionary only.\<close>

definition log_start_prob :: "model \<Rightarrow> string \<Rightarrow> score" where
  "log_start_prob m state =
     (if start_log_probs m \<noteq> []
      then (case dict_get (start_log_probs m) state of None \<Rightarrow> NegInf | Some v \<Rightarrow> v)
      else
        let tot = start_total m; cnt = counter_get (start_counts m) state
        in if tot = 0 \<or> cnt = 0 then NegInf else log_guarded cnt tot)"

text \<open>
  The cached entry \<open>cached[key]\<close> under the test \<open>cached and key in cached\<close>, where
  \<open>cached = table.get(state)\<close>.
\<close>

definition cached_entry :: "score dict dict \<Rightarrow> string \<Rightarrow> string \<Rightarrow> score option" where
  "cached_entry table state key =
     (case dict_get table state of
        None \<Rightarrow> None
      | Some cached \<Rightarrow> if cached \<noteq> [] then dict_get cached key else None)"

text \<open>
  \<open>_log_transition_prob\<close>. On a cache miss it evaluates
  \<open>self.transition_counts[prev_state]\<close>, a read of a \<open>defaultdict\<close>.
\<close>

definition log_transition_prob :: "model \<Rightarrow> string \<Rightarrow> string \<Rightarrow> score \<times> model" where
  "log_transition_prob m prev_state next_state =
     (case cached_entry (transition_log_probs m) prev_state next_state of
        Some v \<Rightarrow> (v, m)
      | None \<Rightarrow>
          let tot = counter_get (transition_totals m) prev_state;
              (row, tc) = defaultdict_getitem [] (transition_counts m) prev_state;
              cnt = counter_get row next_state
          in (if tot = 0 \<or> cnt = 0 then NegInf else log_guarded cnt tot,
              m\<lparr> transition_counts := tc \<rparr>))"

text \<open>
  \<open>_log_emission_prob\<close>. On a cache miss it evaluates
  \<open>self.emission_counts[state]\<close>, a read of a \<open>defaultdict\<close>.
\<close>

definition log_emission_prob :: "model \<Rightarrow> string \<Rightarrow> string \<Rightarrow> score \<times> model" where
  "log_emission_prob m state observation =
     (case cached_entry (emission_log_probs m) state observation of
        Some v \<Rightarrow> (v, m)
      | None \<Rightarrow>
          let (row, ec) = defaultdict_getitem [] (emission_counts m) state;
              cnt = counter_get row observation;
              tot = counter_get (emission_totals m) state
          in (if tot = 0 \<or> cnt = 0 then NegInf else log_guarded cnt tot,
              m\<lparr> emission_counts := ec \<rparr>))"

subsection \<open>Distribution inspectors\<close>

text \<open>
  \<open>sorted(items, key=lambda kv: kv[1], reverse=True)\<close>: a stable sort into
  descending order of the score; entries of equal score keep their order.
\<close>

fun insert_desc :: "string \<times> score \<Rightarrow> (string \<times> score) list \<Rightarrow> (string \<times> score) list" where
  "insert_desc x [] = [x]"
| "insert_desc x (y # ys) =
     (if score_gt (snd y) (snd x) then y # insert_desc x ys else x # y # ys)"

definition sorted_desc :: "(string \<times> score) list \<Rightarrow> (string \<times> score) list" where
  "sorted_desc items = foldr insert_desc items []"

definition transition_log_distribution :: "model \<Rightarrow> string \<Rightarrow> (string \<times> score) list" where
  "transition_log_distribution m state =
     sorted_desc (case dict_get (transition_log_probs m) state of None \<Rightarrow> [] | Some row \<Rightarrow> row)"

definition emission_log_distribution :: "model \<Rightarrow> string \<Rightarrow> (string \<times> score) list" where
  "emission_log_distribution m state =
     sorted_desc (case dict_get (emission_log_probs m) state of None \<Rightarrow> [] | Some row \<Rightarrow> row)"

subsection \<open>Viterbi decoding\<close>

datatype py_error = KeyError

type_synonym tables = "score dict list \<times> string list dict \<times> model"

text \<open>A loop whose body may raise: the first error ends it.\<close>

fun fold_err :: "('s \<Rightarrow> 'a \<Rightarrow> py_error + 's) \<Rightarrow> 's \<Rightarrow> 'a list \<Rightarrow> py_error + 's" where
  "fold_err f s [] = Inr s"
| "fold_err f s (x # xs) = (case f s x of Inl e \<Rightarrow> Inl e | Inr s' \<Rightarrow> fold_err f s' xs)"

text \<open>The initialisation loop over the states, for the first observation.\<close>

definition init_step :: "string \<Rightarrow> tables \<Rightarrow> string \<Rightarrow> tables" where
  "init_step first_obs t state =
     (case t of (viterbi, path, m) \<Rightarrow>
        let start = log_start_prob m state;
            (emission, m') = log_emission_prob m state first_obs;
            sc = score_add start emission
        in (viterbi[0 := dict_set (viterbi ! 0) state sc], dict_set path state [state], m'))"

text \<open>The innermost loop \<open>for prev_state in self.states\<close>.\<close>

definition prev_step ::
  "score dict \<Rightarrow> string list dict \<Rightarrow> string \<Rightarrow> string option \<times> score \<times> model \<Rightarrow> string
     \<Rightarrow> string option \<times> score \<times> model" where
  "prev_step prev_row path curr_state b prev_state =
     (case b of (best_prev, best_score, m) \<Rightarrow>
        if \<not> dict_mem path prev_state then b
        else case dict_get prev_row prev_state of
               None \<Rightarrow> b
             | Some prev_score \<Rightarrow>
                 let (transition_score, m') = log_transition_prob m prev_state curr_state;
                     sc = score_add prev_score transition_score
                 in if score_gt sc best_score then (Some prev_state, sc, m')
                    else (best_prev, best_score, m'))"

text \<open>
  The loop \<open>for curr_state in self.states\<close> at position \<open>index\<close>. \<open>path[best_prev]\<close>
  is a read of a plain dictionary.
\<close>

definition curr_step ::
  "nat \<Rightarrow> string \<Rightarrow> string list dict \<Rightarrow> tables \<Rightarrow> string \<Rightarrow> py_error + tables" where
  "curr_step index obs_char path t curr_state =
     (case t of (viterbi, new_path, m) \<Rightarrow>
        let (emission_score, m1) = log_emission_prob m curr_state obs_char;
            (best_prev, best_score, m2) =
               foldl (prev_step (viterbi ! (index - 1)) path curr_state) (None, NegInf, m1)
                 (states m1)
        in case best_prev of
             Some bp \<Rightarrow>
               (case dict_get path bp of
                  None \<Rightarrow> Inl KeyError
                | Some p \<Rightarrow>
                    Inr (viterbi[index := dict_set (viterbi ! index) curr_state
                                            (score_add best_score emission_score)],
                         dict_set new_path curr_state (p @ [curr_state]), m2))
           | None \<Rightarrow>
               Inr (viterbi[index := dict_set (viterbi ! index) curr_state NegInf],
                    new_path, m2))"

text \<open>The loop \<open>for index in range(1, length)\<close>; \<open>path = new_path\<close> ends each round.\<close>

definition index_step :: "string \<Rightarrow> tables \<Rightarrow> nat \<Rightarrow> py_error + tables" where
  "index_step observed t index =
     (case t of (viterbi, path, m) \<Rightarrow>
        fold_err (curr_step index [observed ! index] path) (viterbi, [], m) (states m))"

definition viterbi_tables :: "model \<Rightarrow> string \<Rightarrow> py_error + tables" where
  "viterbi_tables m observed =
     (let len = length observed;
          viterbi = replicate len [];
          t0 = foldl (init_step [observed ! 0]) (viterbi, [], m) (states m)
      in fold_err (index_step observed) t0 [1 ..< len])"

text \<open>The termination loop over the states.\<close>

definition final_step ::
  "score dict \<Rightarrow> string option \<times> score \<times> model \<Rightarrow> string \<Rightarrow> string option \<times> score \<times> model"
  where
  "final_step last_row b state =
     (case b of (final_state, final_score, m) \<Rightarrow>
        case dict_get last_row state of
          None \<Rightarrow> b
        | Some state_score \<Rightarrow>
            let (transition_score, m') = log_transition_prob m state END_STATE;
                total_score = score_add state_score transition_score
            in if score_gt total_score final_score then (Some state, total_score, m')
               else (final_state, final_score, m'))"

text \<open>Case restoration at the end of \<open>decode_word\<close>; \<open>word\<close> is non-empty there.\<close>

definition restore_case :: "string \<Rightarrow> string \<Rightarrow> string" where
  "restore_case word decoded =
     (if isupper word then upper decoded
      else if isupper [word ! 0] then capitalize decoded
      else decoded)"

definition decode_word :: "model \<Rightarrow> string \<Rightarrow> py_error + string \<times> model" where
  "decode_word m word =
     (if word = [] \<or> states m = [] then Inr (word, m)
      else
        let observed = lower word; len = length observed
        in case viterbi_tables m observed of
             Inl e \<Rightarrow> Inl e
           | Inr (viterbi, path, m1) \<Rightarrow>
               let (final_state, final_score, m2) =
                     foldl (final_step (viterbi ! (len - 1))) (None, NegInf, m1) (states m1)
               in case final_state of
                    None \<Rightarrow> Inr (word, m2)
                  | Some fs \<Rightarrow>
                      (case dict_get path fs of
                         None \<Rightarrow> Inl KeyError
                       | Some p \<Rightarrow> Inr (restore_case word (concat p), m2)))"

text \<open>The list comprehension of \<open>decode_text\<close>, left to right.\<close>

fun decode_words :: "model \<Rightarrow> string list \<Rightarrow> py_error + string list \<times> model" where
  "decode_words m [] = Inr ([], m)"
| "decode_words m (w # ws) =
     (case decode_word m w of
        Inl e \<Rightarrow> Inl e
      | Inr (d, m') \<Rightarrow>
          (case decode_words m' ws of
             Inl e \<Rightarrow> Inl e
           | Inr (ds, m'') \<Rightarrow> Inr (d # ds, m'')))"

definition decode_text :: "model \<Rightarrow> string \<Rightarrow> py_error + string \<times> model" where
  "decode_text m text =
     (case decode_words m (split text) of
        Inl e \<Rightarrow> Inl e
      | Inr (ds, m') \<Rightarrow> Inr (join '' '' ds, m'))"

section \<open>Notions used in the statements and proofs\<close>

subsection \<open>Rows of the count tables, and models equal up to empty rows\<close>

text \<open>The row of a count table under a key; a missing key reads as the empty row.\<close>

definition row_of :: "nat dict dict \<Rightarrow> string \<Rightarrow> nat dict" where
  "row_of d k = (case dict_get d k of None \<Rightarrow> [] | Some c \<Rightarrow> c)"

text \<open>
  Two models that agree on every field except that the two count tables may differ
  in which keys carry an empty row.
\<close>

definition model_equiv :: "model \<Rightarrow> model \<Rightarrow> bool" where
  "model_equiv m m' =
     (states m' = states m \<and> state_set m' = state_set m
      \<and> start_counts m' = start_counts m \<and> start_total m' = start_total m
      \<and> transition_totals m' = transition_totals m
      \<and> emission_totals m' = emission_totals m
      \<and> start_log_probs m' = start_log_probs m
      \<and> transition_log_probs m' = transition_log_probs m
      \<and> emission_log_probs m' = emission_log_probs m
      \<and> (\<forall>k. row_of (transition_counts m') k = row_of (transition_counts m) k)
      \<and> (\<forall>k. row_of (emission_counts m') k = row_of (emission_counts m) k))"

subsection \<open>Invariants of the Viterbi tables\<close>

text \<open>Every stored path has \<open>n\<close> entries, all of them states.\<close>

definition path_ok :: "string list \<Rightarrow> nat \<Rightarrow> string list dict \<Rightarrow> bool" where
  "path_ok sts n path =
     (\<forall>s p. dict_get path s = Some p \<longrightarrow> length p = n \<and> set p \<subseteq> set sts)"

text \<open>Every state with a finite score in the row has a stored path.\<close>

definition row_ok :: "score dict \<Rightarrow> string list dict \<Rightarrow> bool" where
  "row_ok row path = (\<forall>s x. dict_get row s = Some (Fin x) \<longrightarrow> dict_mem path s)"

text \<open>The tables after position \<open>i\<close> of a word of length \<open>len\<close>, decoded from \<open>m0\<close>.\<close>

definition tables_ok :: "model \<Rightarrow> nat \<Rightarrow> nat \<Rightarrow> tables \<Rightarrow> bool" where
  "tables_ok m0 len i t =
     (case t of (vit, path, m) \<Rightarrow>
        length vit = len \<and> i < len \<and> row_ok (vit ! i) path
        \<and> path_ok (states m0) (Suc i) path
        \<and> (\<forall>j. i < j \<and> j < len \<longrightarrow> vit ! j = []) \<and> model_equiv m0 m)"

text \<open>
  The final score of a state for a word: its Viterbi score at the last position plus
  the log-probability of its transition to the end sentinel.
\<close>

definition final_score_of :: "model \<Rightarrow> string \<Rightarrow> string \<Rightarrow> score option" where
  "final_score_of m word s =
     (case viterbi_tables m (lower word) of
        Inl e \<Rightarrow> None
      | Inr (viterbi, path, m1) \<Rightarrow>
          (case dict_get (viterbi ! (length word - 1)) s of
             None \<Rightarrow> None
           | Some sc \<Rightarrow> Some (score_add sc (fst (log_transition_prob m s END_STATE)))))"

subsection \<open>Counting a list of keys\<close>

definition incr_pairs :: "nat dict dict \<Rightarrow> (string \<times> string) list \<Rightarrow> nat dict dict" where
  "incr_pairs d xs = foldl (\<lambda>d p. nested_incr d (fst p) (snd p)) d xs"

definition incr_keys :: "nat dict \<Rightarrow> string list \<Rightarrow> nat dict" where
  "incr_keys d xs = foldl counter_incr d xs"

subsection \<open>The worked scenario\<close>

text \<open>The three training pairs, and the model that training a fresh model on them gives.\<close>

definition the_pairs :: "(string \<times> string) list" where
  "the_pairs = [(''the'', ''the''), (''the'', ''teh''), (''the'', ''the'')]"

definition the_model :: model where
  "the_model =
     \<lparr> states = [''e'', ''h'', ''t''], state_set = {''e'', ''h'', ''t''},
       start_counts = [(''t'', 3)], start_total = 3,
       transition_counts =
         [(''t'', [(''h'', 3)]), (''h'', [(''e'', 3)]), (''e'', [(''<END>'', 3)])],
       transition_totals = [(''t'', 3), (''h'', 3), (''e'', 3)],
       emission_counts =
         [(''t'', [(''t'', 3)]), (''h'', [(''h'', 2), (''e'', 1)]),
          (''e'', [(''e'', 2), (''h'', 1)])],
       emission_totals = [(''t'', 3), (''h'', 3), (''e'', 3)],
       start_log_probs = [(''e'', NegInf), (''h'', NegInf), (''t'', Fin 0)],
       transition_log_probs =
         [(''e'', [(''<END>'', Fin 0)]), (''h'', [(''e'', Fin 0)]), (''t'', [(''h'', Fin 0)])],
       emission_log_probs =
         [(''e'', [(''e'', Fin (ln (2 / 3))), (''h'', Fin (ln (1 / 3)))]),
          (''h'', [(''h'', Fin (ln (2 / 3))), (''e'', Fin (ln (1 / 3)))]),
          (''t'', [(''t'', Fin 0)])] \<rparr>"

subsection \<open>Pairs that are skipped, and the letters a pair adds\<close>

text \<open>The emptiness test of the training loop, on the raw pair.\<close>

definition skipped :: "string \<times> string \<Rightarrow> bool" where
  "skipped p = (lower (strip (fst p)) = [] \<or> lower (strip (snd p)) = [])"

text \<open>The states a pair adds to \<open>state_set\<close>.\<close>

definition new_states :: "string \<times> string \<Rightarrow> string set" where
  "new_states p = (if skipped p then {} else set (chars (lower (strip (fst p)))))"

subsection \<open>Models that the public operations can produce\<close>

text \<open>
  A model is reachable when it is the fresh model or results from a reachable one
  by \<open>train\<close>, \<open>decode_word\<close> or \<open>decode_text\<close>. The two inspectors return no model.
\<close>

inductive reachable :: "model \<Rightarrow> bool" where
  reach_init: "reachable init"
| reach_train: "reachable m \<Longrightarrow> reachable (train pairs m)"
| reach_word: "reachable m \<Longrightarrow> decode_word m w = Inr (d, m') \<Longrightarrow> reachable m'"
| reach_text: "reachable m \<Longrightarrow> decode_text m t = Inr (d, m') \<Longrightarrow> reachable m'"

text \<open>
  Invariants of reachable models: a key with an empty count row has total zero;
  every state is a single character; the keys of the two log tables are states
  with a non-zero total.
\<close>

definition counts_linked :: "model \<Rightarrow> bool" where
  "counts_linked m =
     ((\<forall>s. row_of (transition_counts m) s = [] \<longrightarrow> counter_get (transition_totals m) s = 0)
      \<and> (\<forall>s. row_of (emission_counts m) s = [] \<longrightarrow> counter_get (emission_totals m) s = 0))"

definition single_chars :: "model \<Rightarrow> bool" where
  "single_chars m =
     (finite (state_set m) \<and> (\<forall>s \<in> state_set m. length s = 1)
      \<and> (\<forall>s \<in> set (states m). length s = 1))"

definition keyed :: "string list \<Rightarrow> nat dict \<Rightarrow> score dict dict \<Rightarrow> bool" where
  "keyed sts tots tbl = (\<forall>s. dict_mem tbl s \<longrightarrow> s \<in> set sts \<and> counter_get tots s \<noteq> 0)"

definition tables_keyed :: "model \<Rightarrow> bool" where
  "tables_keyed m =
     ((\<forall>s. dict_mem (transition_log_probs m) s \<longrightarrow>
            s \<in> set (states m) \<and> counter_get (transition_totals m) s \<noteq> 0)
      \<and> (\<forall>s. dict_mem (emission_log_probs m) s \<longrightarrow>
            s \<in> set (states m) \<and> counter_get (emission_totals m) s \<noteq> 0))"

text \<open>Agreement on everything that finalisation reads.\<close>

definition same_counts :: "model \<Rightarrow> model \<Rightarrow> bool" where
  "same_counts m m' =
     (states m' = states m \<and> state_set m' = state_set m
      \<and> start_counts m' = start_counts m \<and> start_total m' = start_total m
      \<and> transition_totals m' = transition_totals m
      \<and> emission_totals m' = emission_totals m
      \<and> (\<forall>k. row_of (transition_counts m') k = row_of (transition_counts m) k)
      \<and> (\<forall>k. row_of (emission_counts m') k = row_of (emission_counts m) k))"

subsection \<open>Letters, character codes, and descending order\<close>

definition code_of :: "char \<Rightarrow> nat" where
  "code_of c = of_char c"


text \<open>ASCII characters and ASCII strings.\<close>

definition is_ascii :: "char \<Rightarrow> bool" where
  "is_ascii c = (code_of c < 128)"

definition ascii :: "string \<Rightarrow> bool" where
  "ascii s = (\<forall>c \<in> set s. is_ascii c)"

text \<open>The uppercase form of an ASCII character, which is a single character.\<close>

definition ascii_upper_char :: "char \<Rightarrow> char" where
  "ascii_upper_char c =
     (if 97 \<le> code_of c \<and> code_of c \<le> 122 then char_of (code_of c - 32) else c)"

text \<open>No score is followed, anywhere later in the list, by a greater one.\<close>

definition nonincreasing :: "score list \<Rightarrow> bool" where
  "nonincreasing xs = sorted_wrt (\<lambda>a b. \<not> score_gt b a) xs"

subsection \<open>Three small trained models\<close>

text \<open>
  The models after training a fresh model on the single pair (a, 1), on the single
  pair (ab, a), and on the single pair whose correct word is the sharp s (U+00DF)
  and whose typed word is a.
\<close>

definition sharp_model :: model where
  "sharp_model =
     \<lparr> states = [[CHR 0xDF]], state_set = {[CHR 0xDF]},
       start_counts = [([CHR 0xDF], 1)], start_total = 1,
       transition_counts = [([CHR 0xDF], [(''<END>'', 1)])],
       transition_totals = [([CHR 0xDF], 1)],
       emission_counts = [([CHR 0xDF], [(''a'', 1)])],
       emission_totals = [([CHR 0xDF], 1)],
       start_log_probs = [([CHR 0xDF], Fin 0)],
       transition_log_probs = [([CHR 0xDF], [(''<END>'', Fin 0)])],
       emission_log_probs = [([CHR 0xDF], [(''a'', Fin 0)])] \<rparr>"


definition short_model :: model where
  "short_model =
     \<lparr> states = [''a'', ''b''], state_set = {''a'', ''b''},
       start_counts = [(''a'', 1)], start_total = 1,
       transition_counts = [(''a'', [(''b'', 1)]), (''b'', [(''<END>'', 1)])],
       transition_totals = [(''a'', 1), (''b'', 1)],
       emission_counts = [(''a'', [(''a'', 1)])],
       emission_totals = [(''a'', 1)],
       start_log_probs = [(''a'', Fin 0), (''b'', NegInf)],
       transition_log_probs = [(''a'', [(''b'', Fin 0)]), (''b'', [(''<END>'', Fin 0)])],
       emission_log_probs = [(''a'', [(''a'', Fin 0)])] \<rparr>"

subsection \<open>The counts as the specification words them\<close>











section \<open>Properties\<close>

subsection \<open>Identity on the empty word and on the untrained model\<close>

text \<open>
  Claim C7. \<open>decode_word\<close> returns its argument unchanged whenever the state
  alphabet of the model is empty, and returns the empty word for the empty word
  on every model. In both cases nothing is raised and the model is left as it was.
\<close>

theorem decode_word_identity:
  "(states m = [] \<longrightarrow> decode_word m w = Inr (w, m)) \<and> decode_word m [] = Inr ([], m)"
  by (simp add: decode_word_def)

theorem decode_word_identity_witness:
  "states init = [] \<and> decode_word init ''anything'' = Inr (''anything'', init)
     \<and> decode_word init [] = Inr ([], init)"
  using decode_word_identity [of init "''anything''"] by (simp add: init_def)

subsection \<open>Reading a model does not change what is read\<close>

lemma model_equiv_refl: "model_equiv m m"
  by (simp add: model_equiv_def)

lemma model_equiv_trans: "model_equiv a b \<Longrightarrow> model_equiv b c \<Longrightarrow> model_equiv a c"
  by (simp add: model_equiv_def)

lemma model_equiv_states: "model_equiv m m' \<Longrightarrow> states m' = states m"
  by (simp add: model_equiv_def)

lemma getitem_fst: "fst (defaultdict_getitem [] d k) = row_of d k"
  by (simp add: defaultdict_getitem_def row_of_def split: option.splits)

lemma getitem_snd: "row_of (snd (defaultdict_getitem [] d k)) k' = row_of d k'"
  by (auto simp add: defaultdict_getitem_def row_of_def dict_get_def split: option.splits if_splits)

lemma log_emission_equiv: "model_equiv m (snd (log_emission_prob m s ob))"
  by (simp add: log_emission_prob_def model_equiv_def Let_def case_prod_beta getitem_snd split: option.splits)

lemma log_transition_equiv: "model_equiv m (snd (log_transition_prob m s ob))"
  by (simp add: log_transition_prob_def model_equiv_def Let_def case_prod_beta getitem_snd split: option.splits)

lemma log_emission_val: "model_equiv m m' \<Longrightarrow> fst (log_emission_prob m' s ob) = fst (log_emission_prob m s ob)"
  by (simp add: log_emission_prob_def model_equiv_def Let_def case_prod_beta getitem_fst split: option.splits)

lemma log_transition_val: "model_equiv m m' \<Longrightarrow> fst (log_transition_prob m' s ob) = fst (log_transition_prob m s ob)"
  by (simp add: log_transition_prob_def model_equiv_def Let_def case_prod_beta getitem_fst split: option.splits)

lemma log_start_val: "model_equiv m m' \<Longrightarrow> log_start_prob m' s = log_start_prob m s"
  by (simp add: log_start_prob_def model_equiv_def)

subsection \<open>The Viterbi loops keep their invariants and raise nothing\<close>

lemma dict_get_set: "dict_get (dict_set d k v) k' = (if k' = k then Some v else dict_get d k')"
  by (induction d) (auto simp: dict_get_def)

lemma dict_mem_get: "dict_mem d k = (dict_get d k \<noteq> None)"
  by (simp add: dict_mem_def dict_get_def map_of_eq_None_iff)

lemma dict_mem_set: "dict_mem (dict_set d k v) k' = (k' = k \<or> dict_mem d k')"
  by (simp add: dict_mem_get dict_get_set)

lemma score_add_Fin: "score_add a b = Fin x \<Longrightarrow> \<exists>y z. a = Fin y \<and> b = Fin z"
  by (cases a; cases b) auto

lemma score_gt_Fin: "score_gt a b \<Longrightarrow> \<exists>x. a = Fin x"
  by (cases a) auto

lemma prev_step_props:
  assumes "prev_step row path c (bp, bs, m) x = (bp1, bs1, m1)"
    and "\<forall>p. bp = Some p \<longrightarrow> dict_mem path p" and "model_equiv m0 m"
  shows "(\<forall>p. bp1 = Some p \<longrightarrow> dict_mem path p) \<and> model_equiv m0 m1"
proof -
  have eq: "model_equiv m0 (snd (log_transition_prob m x c))"
    using assms(3) log_transition_equiv model_equiv_trans by blast
  show ?thesis
    using assms(1,2,3) eq
    by (auto simp: prev_step_def case_prod_beta Let_def split: if_splits option.splits)
qed

lemma prev_fold_props:
  "foldl (prev_step row path c) (bp, bs, m) xs = (bp', bs', m') \<Longrightarrow>
   \<forall>p. bp = Some p \<longrightarrow> dict_mem path p \<Longrightarrow> model_equiv m0 m \<Longrightarrow>
   (\<forall>p. bp' = Some p \<longrightarrow> dict_mem path p) \<and> model_equiv m0 m'"
proof (induction xs arbitrary: bp bs m)
  case Nil
  then show ?case by simp
next
  case (Cons x xs)
  obtain bp1 bs1 m1 where s: "prev_step row path c (bp, bs, m) x = (bp1, bs1, m1)"
    by (cases "prev_step row path c (bp, bs, m) x") auto
  from prev_step_props [OF s Cons.prems(2) Cons.prems(3)]
  have p1: "\<forall>p. bp1 = Some p \<longrightarrow> dict_mem path p" and e1: "model_equiv m0 m1" by auto
  from Cons.prems(1) s have "foldl (prev_step row path c) (bp1, bs1, m1) xs = (bp', bs', m')"
    by simp
  from Cons.IH [OF this p1 e1] show ?case .
qed

lemma curr_step_props:
  assumes i: "i < length vit" and r: "row_ok (vit ! i) np" and p: "path_ok sts i path"
    and n: "path_ok sts (Suc i) np" and e: "model_equiv m0 m" and c: "c \<in> set sts"
  shows "\<exists>r' np' m'. curr_step i ob path (vit, np, m) c = Inr (vit[i := r'], np', m')
           \<and> row_ok r' np' \<and> path_ok sts (Suc i) np' \<and> model_equiv m0 m'"
proof -
  obtain es m1 where em: "log_emission_prob m c ob = (es, m1)"
    by (cases "log_emission_prob m c ob") auto
  have e1: "model_equiv m0 m1"
    using e em log_emission_equiv [of m c ob] model_equiv_trans by fastforce
  obtain bp bs m2 where f: "foldl (prev_step (vit ! (i - 1)) path c) (None, NegInf, m1) (states m1) = (bp, bs, m2)"
    by (cases "foldl (prev_step (vit ! (i - 1)) path c) (None, NegInf, m1) (states m1)") auto
  from prev_fold_props [OF f _ e1]
  have bpm: "\<forall>q. bp = Some q \<longrightarrow> dict_mem path q" and e2: "model_equiv m0 m2" by auto
  show ?thesis
  proof (cases bp)
    case None
    have "curr_step i ob path (vit, np, m) c = Inr (vit[i := dict_set (vit ! i) c NegInf], np, m2)"
      using f by (simp add: curr_step_def em None)
    moreover have "row_ok (dict_set (vit ! i) c NegInf) np"
      using r by (auto simp: row_ok_def dict_get_set split: if_splits)
    ultimately show ?thesis using n e2 by blast
  next
    case (Some q)
    with bpm obtain pq where pq: "dict_get path q = Some pq"
      by (auto simp: dict_mem_get)
    have "curr_step i ob path (vit, np, m) c =
            Inr (vit[i := dict_set (vit ! i) c (score_add bs es)], dict_set np c (pq @ [c]), m2)"
      using f by (simp add: curr_step_def em Some pq)
    moreover have "row_ok (dict_set (vit ! i) c (score_add bs es)) (dict_set np c (pq @ [c]))"
      using r by (auto simp: row_ok_def dict_get_set dict_mem_set split: if_splits)
    moreover have "path_ok sts (Suc i) (dict_set np c (pq @ [c]))"
      using n p pq c by (auto simp: path_ok_def dict_get_set split: if_splits)
    ultimately show ?thesis using e2 by blast
  qed
qed

lemma curr_fold_props:
  "i < length vit \<Longrightarrow> row_ok (vit ! i) np \<Longrightarrow> path_ok sts i path \<Longrightarrow>
   path_ok sts (Suc i) np \<Longrightarrow> model_equiv m0 m \<Longrightarrow> set cs \<subseteq> set sts \<Longrightarrow>
   \<exists>r' np' m'. fold_err (curr_step i ob path) (vit, np, m) cs = Inr (vit[i := r'], np', m')
           \<and> row_ok r' np' \<and> path_ok sts (Suc i) np' \<and> model_equiv m0 m'"
proof (induction cs arbitrary: vit np m)
  case Nil
  have "vit = vit[i := vit ! i]" by simp
  with Nil show ?case by (metis fold_err.simps(1))
next
  case (Cons c cs)
  from Cons.prems have cin: "c \<in> set sts" by simp
  from curr_step_props [OF Cons.prems(1-5) cin, of ob]
  obtain r1 np1 m1 where
    s: "curr_step i ob path (vit, np, m) c = Inr (vit[i := r1], np1, m1)"
    and r1: "row_ok r1 np1" and n1: "path_ok sts (Suc i) np1" and e1: "model_equiv m0 m1"
    by blast
  have l1: "i < length (vit[i := r1])" using Cons.prems(1) by simp
  have r1': "row_ok (vit[i := r1] ! i) np1" using r1 Cons.prems(1) by simp
  have cs: "set cs \<subseteq> set sts" using Cons.prems(6) by simp
  from Cons.IH [OF l1 r1' Cons.prems(3) n1 e1 cs]
  show ?case by (simp add: s)
qed

lemma index_step_props:
  assumes "tables_ok m0 len i t" and "Suc i < len"
  shows "\<exists>t'. index_step ob t (Suc i) = Inr t' \<and> tables_ok m0 len (Suc i) t'"
proof -
  obtain vit path m where t: "t = (vit, path, m)" by (cases t) auto
  from assms t have len: "length vit = len" and p: "path_ok (states m0) (Suc i) path"
    and z: "\<forall>j. i < j \<and> j < len \<longrightarrow> vit ! j = []" and e: "model_equiv m0 m"
    by (auto simp: tables_ok_def)
  have l: "Suc i < length vit" using len assms(2) by simp
  have r0: "row_ok (vit ! Suc i) []" using z assms(2) by (simp add: row_ok_def dict_get_def)
  have n0: "path_ok (states m0) (Suc (Suc i)) []" by (simp add: path_ok_def dict_get_def)
  have st: "set (states m) \<subseteq> set (states m0)" using e by (simp add: model_equiv_def)
  from curr_fold_props [OF l r0 p n0 e st, of "[ob ! Suc i]"]
  obtain r' np' m' where
    f: "fold_err (curr_step (Suc i) [ob ! Suc i] path) (vit, [], m) (states m)
          = Inr (vit[Suc i := r'], np', m')"
    and r: "row_ok r' np'" and n: "path_ok (states m0) (Suc (Suc i)) np'"
    and e': "model_equiv m0 m'" by blast
  have "index_step ob t (Suc i) = Inr (vit[Suc i := r'], np', m')"
    by (simp add: index_step_def t f)
  moreover have "tables_ok m0 len (Suc i) (vit[Suc i := r'], np', m')"
    using len assms(2) r n e' z l by (simp add: tables_ok_def)
  ultimately show ?thesis by blast
qed

lemma index_fold_props:
  "tables_ok m0 len i t \<Longrightarrow> k = len - Suc i \<Longrightarrow>
   \<exists>t'. fold_err (index_step ob) t [Suc i ..< len] = Inr t' \<and> tables_ok m0 len (len - 1) t'"
proof (induction k arbitrary: i t)
  case 0
  then have "i < len" by (cases t) (auto simp: tables_ok_def)
  with 0 have "len - 1 = i" "[Suc i ..< len] = []" by auto
  with 0 show ?case by simp
next
  case (Suc k)
  then have lt: "Suc i < len" by simp
  from index_step_props [OF Suc.prems(1) lt, of ob]
  obtain t1 where s: "index_step ob t (Suc i) = Inr t1" and ok: "tables_ok m0 len (Suc i) t1"
    by blast
  have k: "k = len - Suc (Suc i)" using Suc.prems(2) by simp
  from Suc.IH [OF ok k] obtain t' where
    "fold_err (index_step ob) t1 [Suc (Suc i) ..< len] = Inr t'" "tables_ok m0 len (len - 1) t'"
    by blast
  then show ?case using lt s by (simp add: upt_rec [of "Suc i" len])
qed

lemma init_step_props:
  assumes "tables_ok m0 len 0 (vit, path, m)" and "s \<in> set (states m0)"
  shows "tables_ok m0 len 0 (init_step fo (vit, path, m) s)"
proof -
  have e: "model_equiv m0 (snd (log_emission_prob m s fo))"
    using assms(1) log_emission_equiv [of m s fo] model_equiv_trans
    by (auto simp: tables_ok_def)
  show ?thesis using assms e
    by (auto simp: tables_ok_def init_step_def case_prod_beta Let_def row_ok_def path_ok_def
        dict_get_set dict_mem_set split: if_splits)
qed

lemma init_fold_props:
  "tables_ok m0 len 0 t \<Longrightarrow> set xs \<subseteq> set (states m0) \<Longrightarrow>
   tables_ok m0 len 0 (foldl (init_step fo) t xs)"
proof (induction xs arbitrary: t)
  case Nil
  then show ?case by simp
next
  case (Cons x xs)
  obtain vit path m where t: "t = (vit, path, m)" by (cases t) auto
  from Cons.prems have "tables_ok m0 len 0 (init_step fo t x)"
    using init_step_props [of m0 len vit path m x fo] t by simp
  with Cons show ?case by simp
qed

lemma viterbi_tables_props:
  assumes "obs \<noteq> []"
  shows "\<exists>t. viterbi_tables m obs = Inr t \<and> tables_ok m (length obs) (length obs - 1) t"
proof -
  have "tables_ok m (length obs) 0 (replicate (length obs) [], [], m)"
    using assms by (simp add: tables_ok_def row_ok_def path_ok_def dict_get_def model_equiv_refl)
  then have "tables_ok m (length obs) 0
               (foldl (init_step [obs ! 0]) (replicate (length obs) [], [], m) (states m))"
    by (rule init_fold_props) simp
  from index_fold_props [OF this refl, of obs]
  show ?thesis by (simp add: viterbi_tables_def Let_def)
qed

lemma final_step_props:
  assumes "final_step row (fs, fsc, m) s = (fs1, fsc1, m1)"
    and "\<forall>q. fs = Some q \<longrightarrow> (\<exists>x. dict_get row q = Some (Fin x))" and "model_equiv m0 m"
  shows "(\<forall>q. fs1 = Some q \<longrightarrow> (\<exists>x. dict_get row q = Some (Fin x))) \<and> model_equiv m0 m1"
proof -
  have eq: "model_equiv m0 (snd (log_transition_prob m s END_STATE))"
    using assms(3) log_transition_equiv model_equiv_trans by blast
  show ?thesis
    using assms eq
    by (auto simp: final_step_def case_prod_beta Let_def split: if_splits option.splits
        dest!: score_gt_Fin score_add_Fin)
qed

lemma final_fold_props:
  "foldl (final_step row) (fs, fsc, m) xs = (fs', fsc', m') \<Longrightarrow>
   \<forall>q. fs = Some q \<longrightarrow> (\<exists>x. dict_get row q = Some (Fin x)) \<Longrightarrow> model_equiv m0 m \<Longrightarrow>
   (\<forall>q. fs' = Some q \<longrightarrow> (\<exists>x. dict_get row q = Some (Fin x))) \<and> model_equiv m0 m'"
proof (induction xs arbitrary: fs fsc m)
  case Nil
  then show ?case by simp
next
  case (Cons x xs)
  obtain fs1 fsc1 m1 where s: "final_step row (fs, fsc, m) x = (fs1, fsc1, m1)"
    by (cases "final_step row (fs, fsc, m) x") auto
  from final_step_props [OF s Cons.prems(2) Cons.prems(3)]
  have p1: "\<forall>q. fs1 = Some q \<longrightarrow> (\<exists>x. dict_get row q = Some (Fin x))"
    and e1: "model_equiv m0 m1" by auto
  from Cons.prems(1) s have "foldl (final_step row) (fs1, fsc1, m1) xs = (fs', fsc', m')"
    by simp
  from Cons.IH [OF this p1 e1] show ?case .
qed

subsection \<open>The counting loops in closed form\<close>

lemma incr_pairs_simps [simp]:
  "incr_pairs d [] = d"
  "incr_pairs d (p # ps) = incr_pairs (nested_incr d (fst p) (snd p)) ps"
  by (simp_all add: incr_pairs_def)

lemma incr_keys_simps [simp]:
  "incr_keys d [] = d"
  "incr_keys d (k # ks) = incr_keys (counter_incr d k) ks"
  by (simp_all add: incr_keys_def)

lemma incr_pairs_append: "incr_pairs d (xs @ ys) = incr_pairs (incr_pairs d xs) ys"
  by (simp add: incr_pairs_def)

lemma incr_keys_append: "incr_keys d (xs @ ys) = incr_keys (incr_keys d xs) ys"
  by (simp add: incr_keys_def)

lemma transition_fold_explicit:
  "foldl (transition_step l) m ixs =
     m\<lparr> transition_counts := incr_pairs (transition_counts m) (map (\<lambda>i. (l ! i, l ! (i + 1))) ixs),
        transition_totals := incr_keys (transition_totals m) (map (\<lambda>i. l ! i) ixs) \<rparr>"
  by (induction ixs arbitrary: m) (simp_all add: transition_step_def Let_def)

lemma adjacent_zip: "map (\<lambda>i. (l ! i, l ! Suc i)) [0 ..< length l - Suc 0] = zip l (tl l)"
  by (rule nth_equalityI) (auto simp: nth_tl)

lemma butlast_nth_map: "map ((!) l) [0 ..< length l - Suc 0] = butlast l"
  by (rule nth_equalityI) (auto simp: nth_butlast)

lemma emission_step_pair:
  "emission_step typed m (n, x) =
     (if length typed \<le> n then m
      else m\<lparr> emission_counts := nested_incr (emission_counts m) x [typed ! n],
              emission_totals := counter_incr (emission_totals m) x \<rparr>)"
  by (simp add: emission_step_def Let_def)

lemma emission_fold_explicit:
  "foldl (emission_step typed) m (enumerate n l) =
     m\<lparr> emission_counts := incr_pairs (emission_counts m) (zip l (chars (drop n typed))),
        emission_totals := incr_keys (emission_totals m) (take (length typed - n) l) \<rparr>"
proof (induction l arbitrary: m n)
  case Nil
  then show ?case by simp
next
  case (Cons x xs)
  show ?case
  proof (cases "n < length typed")
    case True
    then have d: "drop n typed = typed ! n # drop (Suc n) typed"
      by (simp add: Cons_nth_drop_Suc)
    from True obtain k where k: "length typed - n = Suc k" "length typed - Suc n = k"
      by (cases "length typed - n") auto
    show ?thesis using True
      by (simp add: Cons.IH emission_step_pair d chars_def k)
  next
    case False
    then show ?thesis
      by (simp add: Cons.IH emission_step_pair chars_def)
  qed
qed

lemma record_pair_explicit:
  assumes "c \<noteq> []"
  shows "record_pair m c t =
     m\<lparr> state_set := state_set m \<union> set (chars c),
        start_counts := counter_incr (start_counts m) [hd c],
        start_total := start_total m + 1,
        transition_counts :=
          incr_pairs (transition_counts m) (zip (chars c) (tl (chars c)) @ [([last c], END_STATE)]),
        transition_totals := incr_keys (transition_totals m) (chars c),
        emission_counts := incr_pairs (emission_counts m) (zip (chars c) (chars t)),
        emission_totals := incr_keys (emission_totals m) (take (length t) (chars c)) \<rparr>"
proof -
  have ne: "chars c \<noteq> []" using assms by (simp add: chars_def)
  have h: "hd (chars c) = [hd c]" using assms by (simp add: chars_def hd_map)
  have l: "last (chars c) = [last c]" using assms by (simp add: chars_def last_map)
  have b: "butlast (chars c) @ [[last c]] = chars c"
    using ne l by (metis append_butlast_last_id)
  have k: "incr_keys (incr_keys d (butlast (chars c))) [[last c]] = incr_keys d (chars c)" for d
    using b incr_keys_append [of d "butlast (chars c)" "[[last c]]"] by simp
  show ?thesis
    using ne k
    by (simp add: record_pair_def Let_def transition_fold_explicit emission_fold_explicit
        adjacent_zip butlast_nth_map h l incr_pairs_append)
qed

subsection \<open>Evaluation of the worked scenario\<close>

lemmas str_defs = lower_def lower_char_def is_upper_char_def is_lower_char_def upper_def
  upper_char_def title_char_def char_of_eq_iff strip_def is_space_def chars_def isupper_def split_def

lemmas dict_defs = dict_get_def dict_mem_def counter_get_def counter_incr_def
  defaultdict_getitem_def nested_incr_def nested_set_def

lemmas train_defs = train_def train_pair_def record_pair_def transition_step_def
  emission_step_def END_STATE_def Let_def init_def finalize_probabilities_def
  finalize_start_def finalize_transition_def finalize_emission_def finalize_row_def
  log_ratio_def

lemmas decode_defs = decode_word_def viterbi_tables_def index_step_def curr_step_def
  prev_step_def init_step_def final_step_def restore_case_def log_start_prob_def
  log_emission_prob_def log_transition_prob_def cached_entry_def log_guarded_def
  END_STATE_def Let_def

lemma sorted_the_states: "sorted_list_of_set {''t'', ''h'', ''e''} = [''e'', ''h'', ''t'']"
  by (simp add: sorted_list_of_set_insert_remove)

lemma train_the_pairs: "train the_pairs init = the_model"
  by (simp add: the_pairs_def str_defs dict_defs train_defs upt_rec enumerate_eq_zip
      insert_Diff_if sorted_the_states the_model_def insert_commute)

lemma final_score_of_t:
  "final_score_of the_model ''t'' s = (if s \<in> {''e'', ''h'', ''t''} then Some NegInf else None)"
  by (simp add: final_score_of_def the_model_def decode_defs str_defs dict_defs upt_rec)

subsection \<open>Fallback when no path reaches the end\<close>

lemma score_gt_NegInf: "score_gt a NegInf = (\<exists>x. a = Fin x)"
  by (cases a) auto

lemma final_fold_none:
  "\<forall>s \<in> set xs. \<forall>sc. dict_get row s = Some sc \<longrightarrow>
      (\<forall>x. score_add sc (fst (log_transition_prob m0 s END_STATE)) \<noteq> Fin x) \<Longrightarrow>
   model_equiv m0 m \<Longrightarrow>
   \<exists>m'. foldl (final_step row) (None, NegInf, m) xs = (None, NegInf, m')"
proof (induction xs arbitrary: m)
  case Nil
  then show ?case by simp
next
  case (Cons x xs)
  have v: "fst (log_transition_prob m x END_STATE) = fst (log_transition_prob m0 x END_STATE)"
    using Cons.prems(2) by (rule log_transition_val)
  have e: "model_equiv m0 (snd (log_transition_prob m x END_STATE))"
    using Cons.prems(2) log_transition_equiv model_equiv_trans by blast
  have "final_step row (None, NegInf, m) x = (None, NegInf, m)
        \<or> final_step row (None, NegInf, m) x = (None, NegInf, snd (log_transition_prob m x END_STATE))"
    using Cons.prems(1) v
    by (auto simp: final_step_def case_prod_beta Let_def score_gt_NegInf split: option.splits)
  then show ?case
    using Cons.IH [of m] Cons.IH [of "snd (log_transition_prob m x END_STATE)"] Cons.prems e
    by auto
qed

text \<open>
  Claim C4. For a non-empty word for which no state of the alphabet has a finite
  final score, \<open>decode_word\<close> returns the word itself and raises nothing.
\<close>

theorem decode_word_fallback:
  assumes "w \<noteq> []"
    and "\<forall>s \<in> set (states m). \<forall>x. final_score_of m w s \<noteq> Some (Fin x)"
  shows "\<exists>m'. decode_word m w = Inr (w, m')"
proof (cases "states m = []")
  case True
  then show ?thesis by (simp add: decode_word_def)
next
  case False
  have ne: "lower w \<noteq> []" using assms(1) by (simp add: lower_def)
  have len: "length (lower w) = length w" by (simp add: lower_def)
  from viterbi_tables_props [OF ne, of m] obtain vit path m1 where
    v: "viterbi_tables m (lower w) = Inr (vit, path, m1)"
    and ok: "tables_ok m (length w) (length w - 1) (vit, path, m1)"
    by (auto simp: lower_def)
  from ok have e1: "model_equiv m m1" by (simp add: tables_ok_def)
  then have st: "states m1 = states m" by (simp add: model_equiv_def)
  have "\<forall>s \<in> set (states m1). \<forall>sc. dict_get (vit ! (length w - 1)) s = Some sc \<longrightarrow>
      (\<forall>x. score_add sc (fst (log_transition_prob m s END_STATE)) \<noteq> Fin x)"
    using assms(2) st by (auto simp: final_score_of_def v)
  from final_fold_none [OF this e1] obtain m2 where
    "foldl (final_step (vit ! (length w - 1))) (None, NegInf, m1) (states m1) = (None, NegInf, m2)"
    by blast
  then show ?thesis
    using assms(1) False by (simp add: decode_word_def Let_def v len)
qed

theorem decode_word_fallback_witness:
  "states the_model = [''e'', ''h'', ''t'']
     \<and> final_score_of the_model ''t'' ''e'' = Some NegInf
     \<and> final_score_of the_model ''t'' ''h'' = Some NegInf
     \<and> final_score_of the_model ''t'' ''t'' = Some NegInf
     \<and> (\<exists>m'. decode_word the_model ''t'' = Inr (''t'', m'))"
proof -
  have h: "\<forall>s \<in> set (states the_model). \<forall>x. final_score_of the_model ''t'' s \<noteq> Some (Fin x)"
    by (simp add: final_score_of_t)
  have "states the_model = [''e'', ''h'', ''t'']" by (simp add: the_model_def)
  with decode_word_fallback [of "''t''" the_model, OF _ h] show ?thesis
    by (simp add: final_score_of_t)
qed

subsection \<open>The worked scenario\<close>

lemma decode_the_teh: "decode_word the_model ''teh'' = Inr (''the'', the_model)"
  by (simp add: the_model_def decode_defs str_defs dict_defs upt_rec)

lemma decode_the_TEH: "decode_word the_model ''TEH'' = Inr (''THE'', the_model)"
  by (simp add: the_model_def decode_defs str_defs dict_defs upt_rec)

lemma decode_the_Teh: "decode_word the_model ''Teh'' = Inr (''The'', the_model)"
  by (simp add: the_model_def decode_defs str_defs dict_defs upt_rec)

lemma decode_the_the: "decode_word the_model ''the'' = Inr (''the'', the_model)"
  by (simp add: the_model_def decode_defs str_defs dict_defs upt_rec)

lemma split_teh_teh: "split ''teh teh'' = [''teh'', ''teh'']"
  by (simp add: split_def is_space_def)

lemma decode_text_the: "decode_text the_model ''teh teh'' = Inr (''the the'', the_model)"
  by (simp add: decode_text_def split_teh_teh decode_the_teh)

lemma transition_the_t: "transition_log_distribution the_model ''t'' = [(''h'', Fin 0)]"
  by (simp add: the_model_def transition_log_distribution_def sorted_desc_def dict_get_def)

lemma emission_the_e:
  "emission_log_distribution the_model ''e'' = [(''e'', Fin (ln (2 / 3))), (''h'', Fin (ln (1 / 3)))]"
  by (simp add: the_model_def emission_log_distribution_def sorted_desc_def dict_get_def)

text \<open>
  Claim C1. Training a fresh model on the three pairs (the, the), (the, teh),
  (the, the) gives the sorted alphabet e, h, t; the transition distribution of t is
  the single entry (h, 0); the emission distribution of e is (e, log (2/3)) followed
  by (h, log (1/3)); teh, TEH, Teh and the decode to the, THE, The and the; and the
  text "teh teh" decodes to "the the". No call raises or changes the model.
\<close>

theorem worked_scenario:
  "states (train the_pairs init) = [''e'', ''h'', ''t'']
   \<and> transition_log_distribution (train the_pairs init) ''t'' = [(''h'', Fin 0)]
   \<and> emission_log_distribution (train the_pairs init) ''e''
        = [(''e'', Fin (ln (2 / 3))), (''h'', Fin (ln (1 / 3)))]
   \<and> decode_word (train the_pairs init) ''teh'' = Inr (''the'', train the_pairs init)
   \<and> decode_word (train the_pairs init) ''TEH'' = Inr (''THE'', train the_pairs init)
   \<and> decode_word (train the_pairs init) ''Teh'' = Inr (''The'', train the_pairs init)
   \<and> decode_word (train the_pairs init) ''the'' = Inr (''the'', train the_pairs init)
   \<and> decode_text (train the_pairs init) ''teh teh'' = Inr (''the the'', train the_pairs init)"
  by (simp add: train_the_pairs decode_the_teh decode_the_TEH decode_the_Teh decode_the_the
      decode_text_the transition_the_t emission_the_e) (simp add: the_model_def)

subsection \<open>Counting facts and the training step in closed form\<close>

lemma counter_get_incr: "counter_get (counter_incr c k) k' = counter_get c k' + (if k' = k then 1 else 0)"
  by (simp add: counter_get_def counter_incr_def dict_get_set)

lemma dict_set_nonempty: "dict_set d k v \<noteq> []"
  by (induction d k v rule: dict_set.induct) auto

lemma row_of_dict_set: "row_of (dict_set d k1 v) k = (if k = k1 then v else row_of d k)"
  by (simp add: row_of_def dict_get_set)

lemma nested_incr_alt:
  "nested_incr d k1 k2 =
     dict_set (snd (defaultdict_getitem [] d k1)) k1 (counter_incr (row_of d k1) k2)"
  by (simp add: nested_incr_def case_prod_beta getitem_fst)

lemma row_of_nested_incr:
  "row_of (nested_incr d k1 k2) k = (if k = k1 then counter_incr (row_of d k1) k2 else row_of d k)"
  by (simp add: nested_incr_alt row_of_dict_set getitem_snd)

lemma counter_get_incr_keys:
  "counter_get (incr_keys d xs) k = counter_get d k + count_list xs k"
  by (induction xs arbitrary: d) (auto simp: counter_get_incr)

lemma row_of_incr_pairs_empty:
  "row_of (incr_pairs d xs) k = [] \<Longrightarrow> row_of d k = [] \<and> k \<notin> fst ` set xs"
proof (induction xs arbitrary: d)
  case Nil
  then show ?case by simp
next
  case (Cons p ps)
  from Cons.IH [of "nested_incr d (fst p) (snd p)"] Cons.prems
  have a: "row_of (nested_incr d (fst p) (snd p)) k = []" and b: "k \<notin> fst ` set ps" by auto
  from a have "k \<noteq> fst p \<and> row_of d k = []"
    by (auto simp: row_of_nested_incr counter_incr_def dict_set_nonempty split: if_splits)
  with b show ?case by auto
qed

lemma train_pair_explicit:
  "train_pair m p =
     (if skipped p then m
      else let c = lower (strip (fst p)); t = lower (strip (snd p)) in
        m\<lparr> state_set := state_set m \<union> set (chars c),
           start_counts := counter_incr (start_counts m) [hd c],
           start_total := start_total m + 1,
           transition_counts :=
             incr_pairs (transition_counts m) (zip (chars c) (tl (chars c)) @ [([last c], END_STATE)]),
           transition_totals := incr_keys (transition_totals m) (chars c),
           emission_counts := incr_pairs (emission_counts m) (zip (chars c) (chars t)),
           emission_totals := incr_keys (emission_totals m) (take (length t) (chars c)) \<rparr>)"
  by (simp add: train_pair_def skipped_def Let_def record_pair_explicit)

lemma train_pair_frame:
  "states (train_pair m p) = states m"
  "start_log_probs (train_pair m p) = start_log_probs m"
  "transition_log_probs (train_pair m p) = transition_log_probs m"
  "emission_log_probs (train_pair m p) = emission_log_probs m"
  "state_set (train_pair m p) = state_set m \<union> new_states p"
  by (simp_all add: train_pair_explicit new_states_def Let_def)

lemma fst_zip_tl: "k \<in> fst ` set (zip xs (tl xs) @ [(last xs, e)]) \<longleftrightarrow> k \<in> set xs" if "xs \<noteq> []"
proof -
  have "map fst (zip xs (tl xs)) = butlast xs"
    by (rule nth_equalityI) (auto simp: nth_butlast)
  then have "fst ` set (zip xs (tl xs)) = set (butlast xs)"
    by (metis set_map)
  moreover have "set xs = set (butlast xs) \<union> {last xs}"
    using that by (metis append_butlast_last_id set_append list.set(1) list.set(2) Un_insert_right sup_bot_right)
  ultimately show ?thesis by auto
qed

lemma train_pair_linked:
  assumes "counts_linked m"
  shows "counts_linked (train_pair m p)"
proof (cases "skipped p")
  case True
  with assms show ?thesis by (simp add: train_pair_explicit)
next
  case False
  define c where "c = lower (strip (fst p))"
  define t where "t = lower (strip (snd p))"
  have ne: "chars c \<noteq> []" "c \<noteq> []" using False by (auto simp: skipped_def c_def chars_def)
  have l: "[last c] = last (chars c)" using ne by (simp add: chars_def last_map)
  have tr: "counter_get (incr_keys (transition_totals m) (chars c)) s = 0"
    if "row_of (incr_pairs (transition_counts m) (zip (chars c) (tl (chars c)) @ [([last c], END_STATE)])) s = []" for s
  proof -
    from row_of_incr_pairs_empty [OF that]
    have "row_of (transition_counts m) s = []" and "s \<notin> set (chars c)"
      using fst_zip_tl [OF ne(1), of s END_STATE] l by auto
    then show ?thesis using assms by (simp add: counts_linked_def counter_get_incr_keys)
  qed
  have em: "counter_get (incr_keys (emission_totals m) (take (length t) (chars c))) s = 0"
    if "row_of (incr_pairs (emission_counts m) (zip (chars c) (chars t))) s = []" for s
  proof -
    from row_of_incr_pairs_empty [OF that]
    have a: "row_of (emission_counts m) s = []" and b: "s \<notin> fst ` set (zip (chars c) (chars t))"
      by auto
    have "map fst (zip (chars c) (chars t)) = take (length t) (chars c)"
      by (rule nth_equalityI) (auto simp: chars_def)
    then have "fst ` set (zip (chars c) (chars t)) = set (take (length t) (chars c))"
      by (metis set_map)
    with b have "s \<notin> set (take (length t) (chars c))" by simp
    with a show ?thesis using assms by (simp add: counts_linked_def counter_get_incr_keys)
  qed
  show ?thesis
    using False tr em by (simp add: train_pair_explicit Let_def counts_linked_def c_def t_def)
qed

subsection \<open>Finalisation keeps the counts and keys the tables by states\<close>

lemma same_counts_refl: "same_counts m m"
  by (simp add: same_counts_def)

lemma same_counts_trans: "same_counts a b \<Longrightarrow> same_counts b c \<Longrightarrow> same_counts a c"
  by (simp add: same_counts_def)

lemma model_equiv_same_counts: "model_equiv m m' \<Longrightarrow> same_counts m m'"
  by (simp add: model_equiv_def same_counts_def)

lemma foldl_same_counts:
  "(\<And>m x. same_counts m (f m x)) \<Longrightarrow> same_counts m (foldl f m xs)"
proof (induction xs arbitrary: m)
  case Nil
  then show ?case by (simp add: same_counts_refl)
next
  case (Cons x xs)
  have "same_counts m (f m x)" by (rule Cons.prems)
  moreover have "same_counts (f m x) (foldl f (f m x) xs)" by (rule Cons.IH) (rule Cons.prems)
  ultimately show ?case using same_counts_trans by simp
qed

lemma finalize_start_same: "same_counts m (finalize_start m s)"
  by (simp add: finalize_start_def same_counts_def Let_def)

lemma finalize_transition_same: "same_counts m (finalize_transition m s)"
  by (simp add: finalize_transition_def same_counts_def Let_def case_prod_beta getitem_snd)

lemma finalize_emission_same: "same_counts m (finalize_emission m s)"
  by (simp add: finalize_emission_def same_counts_def Let_def case_prod_beta getitem_snd)

lemma finalize_unfold:
  assumes "m0 = m\<lparr> start_log_probs := [], transition_log_probs := [], emission_log_probs := [] \<rparr>"
    and "m1 = foldl finalize_start m0 (states m0)"
    and "m2 = foldl finalize_transition m1 (states m1)"
    and "m3 = foldl finalize_emission m2 (states m2)"
  shows "finalize_probabilities m = (if states m = [] then m0 else m3)"
  using assms by (simp add: finalize_probabilities_def Let_def)

lemma finalize_same: "same_counts m (finalize_probabilities m)"
proof -
  define m0 where "m0 = m\<lparr> start_log_probs := [], transition_log_probs := [], emission_log_probs := [] \<rparr>"
  define m1 where "m1 = foldl finalize_start m0 (states m0)"
  define m2 where "m2 = foldl finalize_transition m1 (states m1)"
  define m3 where "m3 = foldl finalize_emission m2 (states m2)"
  have a: "same_counts m m0" by (simp add: same_counts_def m0_def)
  have b: "same_counts m0 m1" unfolding m1_def by (rule foldl_same_counts) (rule finalize_start_same)
  have c: "same_counts m1 m2" unfolding m2_def by (rule foldl_same_counts) (rule finalize_transition_same)
  have d: "same_counts m2 m3" unfolding m3_def by (rule foldl_same_counts) (rule finalize_emission_same)
  from a b c d have "same_counts m m3" using same_counts_trans by blast
  with a show ?thesis by (simp add: finalize_unfold [OF m0_def m1_def m2_def m3_def])
qed

lemma dict_mem_append: "dict_mem (d @ e) k = (dict_mem d k \<or> dict_mem e k)"
  by (auto simp: dict_mem_def)

lemma dict_mem_getitem:
  "dict_mem (snd (defaultdict_getitem dflt d k1)) s = (s = k1 \<or> dict_mem d s)"
proof (cases "dict_get d k1")
  case None
  then show ?thesis by (auto simp: defaultdict_getitem_def dict_mem_def)
next
  case (Some v)
  then have "dict_mem d k1" by (simp add: dict_mem_get)
  with Some show ?thesis by (auto simp: defaultdict_getitem_def)
qed

lemma dict_mem_nested_set: "dict_mem (nested_set d k1 k2 v) s = (s = k1 \<or> dict_mem d s)"
  by (auto simp: nested_set_def case_prod_beta dict_mem_set dict_mem_getitem)

lemma finalize_row_keys:
  "dict_mem (foldl (finalize_row key tot) tbl row) s \<Longrightarrow> s = key \<or> dict_mem tbl s"
proof (induction row arbitrary: tbl)
  case Nil
  then show ?case by simp
next
  case (Cons item row)
  from Cons.IH [of "finalize_row key tot tbl item"] Cons.prems
  have "s = key \<or> dict_mem (finalize_row key tot tbl item) s" by simp
  then show ?case by (auto simp: finalize_row_def dict_mem_nested_set split: if_splits)
qed

lemma finalize_transition_keyed:
  "keyed sts (transition_totals m) (transition_log_probs m) \<Longrightarrow> x \<in> set sts \<Longrightarrow>
   keyed sts (transition_totals m) (transition_log_probs (finalize_transition m x))"
  by (auto simp: finalize_transition_def Let_def case_prod_beta keyed_def dest!: finalize_row_keys)

lemma finalize_emission_keyed:
  "keyed sts (emission_totals m) (emission_log_probs m) \<Longrightarrow> x \<in> set sts \<Longrightarrow>
   keyed sts (emission_totals m) (emission_log_probs (finalize_emission m x))"
  by (auto simp: finalize_emission_def Let_def case_prod_beta keyed_def dest!: finalize_row_keys)

lemma finalize_transition_fold_keyed:
  "keyed sts (transition_totals m) (transition_log_probs m) \<Longrightarrow> set xs \<subseteq> set sts \<Longrightarrow>
   keyed sts (transition_totals m) (transition_log_probs (foldl finalize_transition m xs))"
proof (induction xs arbitrary: m)
  case Nil
  then show ?case by simp
next
  case (Cons x xs)
  have t: "transition_totals (finalize_transition m x) = transition_totals m"
    using finalize_transition_same [of m x] by (simp add: same_counts_def)
  have "keyed sts (transition_totals (finalize_transition m x))
          (transition_log_probs (finalize_transition m x))"
    using Cons.prems finalize_transition_keyed [of sts m x] t by simp
  from Cons.IH [OF this] Cons.prems(2) t show ?case by simp
qed

lemma finalize_emission_fold_keyed:
  "keyed sts (emission_totals m) (emission_log_probs m) \<Longrightarrow> set xs \<subseteq> set sts \<Longrightarrow>
   keyed sts (emission_totals m) (emission_log_probs (foldl finalize_emission m xs))"
proof (induction xs arbitrary: m)
  case Nil
  then show ?case by simp
next
  case (Cons x xs)
  have t: "emission_totals (finalize_emission m x) = emission_totals m"
    using finalize_emission_same [of m x] by (simp add: same_counts_def)
  have "keyed sts (emission_totals (finalize_emission m x))
          (emission_log_probs (finalize_emission m x))"
    using Cons.prems finalize_emission_keyed [of sts m x] t by simp
  from Cons.IH [OF this] Cons.prems(2) t show ?case by simp
qed

lemma finalize_emission_fold_tlp:
  "transition_log_probs (foldl finalize_emission m xs) = transition_log_probs m"
  by (induction xs arbitrary: m) (simp_all add: finalize_emission_def Let_def case_prod_beta)

lemma finalize_start_fold_logs:
  "transition_log_probs (foldl finalize_start m xs) = transition_log_probs m"
  "emission_log_probs (foldl finalize_start m xs) = emission_log_probs m"
  by (induction xs arbitrary: m) (simp_all add: finalize_start_def Let_def)

lemma finalize_transition_fold_elp:
  "emission_log_probs (foldl finalize_transition m xs) = emission_log_probs m"
  by (induction xs arbitrary: m) (simp_all add: finalize_transition_def Let_def case_prod_beta)

lemma finalize_keyed: "tables_keyed (finalize_probabilities m)"
proof -
  define m0 where "m0 = m\<lparr> start_log_probs := [], transition_log_probs := [], emission_log_probs := [] \<rparr>"
  define m1 where "m1 = foldl finalize_start m0 (states m0)"
  define m2 where "m2 = foldl finalize_transition m1 (states m1)"
  define m3 where "m3 = foldl finalize_emission m2 (states m2)"
  have s1: "same_counts m0 m1" unfolding m1_def by (rule foldl_same_counts) (rule finalize_start_same)
  have s2: "same_counts m1 m2" unfolding m2_def by (rule foldl_same_counts) (rule finalize_transition_same)
  have s3: "same_counts m2 m3" unfolding m3_def by (rule foldl_same_counts) (rule finalize_emission_same)
  have l0: "transition_log_probs m0 = []" "emission_log_probs m0 = []" by (simp_all add: m0_def)
  have "keyed (states m1) (transition_totals m1) (transition_log_probs m1)"
    by (simp add: m1_def finalize_start_fold_logs l0 keyed_def dict_mem_def)
  from finalize_transition_fold_keyed [OF this, of "states m1"]
  have "keyed (states m1) (transition_totals m1) (transition_log_probs m2)"
    by (simp add: m2_def)
  then have k1: "keyed (states m3) (transition_totals m3) (transition_log_probs m3)"
    using s2 s3 by (simp add: m3_def finalize_emission_fold_tlp same_counts_def)
  have "keyed (states m2) (emission_totals m2) (emission_log_probs m2)"
    by (simp add: m2_def m1_def finalize_transition_fold_elp finalize_start_fold_logs l0
        keyed_def dict_mem_def)
  from finalize_emission_fold_keyed [OF this, of "states m2"]
  have "keyed (states m2) (emission_totals m2) (emission_log_probs m3)"
    by (simp add: m3_def)
  then have k2: "keyed (states m3) (emission_totals m3) (emission_log_probs m3)"
    using s3 by (simp add: same_counts_def)
  have "tables_keyed m3"
    using k1 k2 by (simp add: tables_keyed_def keyed_def)
  moreover have "tables_keyed m0" by (simp add: tables_keyed_def dict_mem_def l0)
  ultimately show ?thesis by (simp add: finalize_unfold [OF m0_def m1_def m2_def m3_def])
qed

subsection \<open>Decoding raises nothing; invariants of reachable models\<close>

lemma decode_word_pair:
  assumes "w \<noteq> []" and "states m \<noteq> []" and "lower w' = lower w"
  shows "\<exists>m'. model_equiv m m' \<and>
           ((decode_word m w = Inr (w, m') \<and> decode_word m w' = Inr (w', m')) \<or>
            (\<exists>p. length p = length w \<and> set p \<subseteq> set (states m)
                 \<and> decode_word m w = Inr (restore_case w (concat p), m')
                 \<and> decode_word m w' = Inr (restore_case w' (concat p), m')))"
proof -
  have ne: "lower w \<noteq> []" using assms(1) by (simp add: lower_def)
  have len: "length (lower w) = length w" by (simp add: lower_def)
  have ne': "w' \<noteq> []" using assms(3) ne by (auto simp: lower_def)
  from viterbi_tables_props [OF ne, of m] obtain vit path m1 where
    v: "viterbi_tables m (lower w) = Inr (vit, path, m1)"
    and ok: "tables_ok m (length w) (length w - 1) (vit, path, m1)"
    by (auto simp: lower_def)
  obtain fs fsc m2 where
    f: "foldl (final_step (vit ! (length w - 1))) (None, NegInf, m1) (states m1) = (fs, fsc, m2)"
    by (cases "foldl (final_step (vit ! (length w - 1))) (None, NegInf, m1) (states m1)") auto
  from ok have e1: "model_equiv m m1" by (simp add: tables_ok_def)
  from final_fold_props [OF f _ e1]
  have fin: "\<forall>q. fs = Some q \<longrightarrow> (\<exists>x. dict_get (vit ! (length w - 1)) q = Some (Fin x))"
    and e2: "model_equiv m m2" by auto
  show ?thesis
  proof (cases fs)
    case None
    have "decode_word m w = Inr (w, m2)"
      using assms f by (simp add: decode_word_def Let_def v len None)
    moreover have "decode_word m w' = Inr (w', m2)"
      using assms ne' f by (simp add: decode_word_def Let_def v len None)
    ultimately show ?thesis using e2 by blast
  next
    case (Some q)
    with fin obtain x where "dict_get (vit ! (length w - 1)) q = Some (Fin x)" by blast
    with ok have "dict_mem path q" by (auto simp: tables_ok_def row_ok_def)
    then obtain p where p: "dict_get path q = Some p" by (auto simp: dict_mem_get)
    with ok assms(1) have "length p = length w" "set p \<subseteq> set (states m)"
      by (auto simp: tables_ok_def path_ok_def)
    moreover have "decode_word m w = Inr (restore_case w (concat p), m2)"
      using assms f by (simp add: decode_word_def Let_def v len Some p)
    moreover have "decode_word m w' = Inr (restore_case w' (concat p), m2)"
      using assms ne' f by (simp add: decode_word_def Let_def v len Some p)
    ultimately show ?thesis using e2 by blast
  qed
qed

lemma decode_word_total: "\<exists>d m'. decode_word m w = Inr (d, m') \<and> model_equiv m m'"
proof (cases "w = [] \<or> states m = []")
  case True
  then show ?thesis by (auto simp: decode_word_def model_equiv_refl)
next
  case False
  with decode_word_pair [of w m w] show ?thesis by auto
qed

lemma decode_words_total: "\<exists>ds m'. decode_words m ws = Inr (ds, m') \<and> model_equiv m m'"
proof (induction ws arbitrary: m)
  case Nil
  then show ?case by (simp add: model_equiv_refl)
next
  case (Cons w ws)
  obtain d m1 where d: "decode_word m w = Inr (d, m1)" and e: "model_equiv m m1"
    using decode_word_total by blast
  obtain ds m2 where ds: "decode_words m1 ws = Inr (ds, m2)" and e2: "model_equiv m1 m2"
    using Cons.IH by blast
  from e e2 have "model_equiv m m2" by (rule model_equiv_trans)
  with d ds show ?case by simp
qed

lemma decode_text_total: "\<exists>d m'. decode_text m t = Inr (d, m') \<and> model_equiv m m'"
  using decode_words_total [of m "split t"] by (auto simp: decode_text_def)

lemma single_chars_same: "single_chars m \<Longrightarrow> same_counts m m' \<Longrightarrow> single_chars m'"
  by (simp add: single_chars_def same_counts_def)

lemma counts_linked_same: "counts_linked m \<Longrightarrow> same_counts m m' \<Longrightarrow> counts_linked m'"
  by (simp add: counts_linked_def same_counts_def)

lemma tables_keyed_equiv: "tables_keyed m \<Longrightarrow> model_equiv m m' \<Longrightarrow> tables_keyed m'"
  by (simp add: tables_keyed_def model_equiv_def)

lemma train_fold_state_set:
  "state_set (foldl train_pair m ps) = state_set m \<union> (\<Union>p \<in> set ps. new_states p)"
  by (induction ps arbitrary: m) (auto simp: train_pair_frame)

lemma train_fold_states: "states (foldl train_pair m ps) = states m"
  by (induction ps arbitrary: m) (auto simp: train_pair_frame)

lemma train_fold_linked: "counts_linked m \<Longrightarrow> counts_linked (foldl train_pair m ps)"
  by (induction ps arbitrary: m) (auto simp: train_pair_linked)

lemma new_states_single: "finite (new_states p) \<and> (\<forall>s \<in> new_states p. length s = 1)"
  by (auto simp: new_states_def chars_def)

lemma train_unfold:
  assumes "m1 = foldl train_pair m ps"
    and "m3 = m1\<lparr> state_set := state_set m1 - {[CHR 0x0A]},
                  states := sorted_list_of_set (state_set m1 - {[CHR 0x0A]}) \<rparr>"
  shows "train ps m = finalize_probabilities m3"
  using assms by (simp add: train_def Let_def)

lemma train_single: assumes "single_chars m" shows "single_chars (train ps m)"
proof -
  define m1 where "m1 = foldl train_pair m ps"
  define m3 where "m3 = m1\<lparr> state_set := state_set m1 - {[CHR 0x0A]},
                  states := sorted_list_of_set (state_set m1 - {[CHR 0x0A]}) \<rparr>"
  have fin: "finite (state_set m1)" and one: "\<forall>s \<in> state_set m1. length s = 1"
    using assms new_states_single
    by (auto simp: m1_def train_fold_state_set single_chars_def)
  have "single_chars m3"
    using fin one by (simp add: m3_def single_chars_def)
  then show ?thesis
    using finalize_same [of m3] single_chars_same
    by (simp add: train_unfold [OF m1_def m3_def])
qed

lemma train_linked: assumes "counts_linked m" shows "counts_linked (train ps m)"
proof -
  define m1 where "m1 = foldl train_pair m ps"
  define m3 where "m3 = m1\<lparr> state_set := state_set m1 - {[CHR 0x0A]},
                  states := sorted_list_of_set (state_set m1 - {[CHR 0x0A]}) \<rparr>"
  have "counts_linked m1" using assms by (simp add: m1_def train_fold_linked)
  then have "counts_linked m3" by (simp add: m3_def counts_linked_def)
  then show ?thesis
    using finalize_same [of m3] counts_linked_same
    by (simp add: train_unfold [OF m1_def m3_def])
qed

lemma train_keyed: "tables_keyed (train ps m)"
  by (simp add: train_def Let_def finalize_keyed)

lemma reachable_inv: "reachable m \<Longrightarrow> single_chars m \<and> counts_linked m \<and> tables_keyed m"
proof (induction rule: reachable.induct)
  case reach_init
  then show ?case
    by (simp add: init_def single_chars_def counts_linked_def tables_keyed_def row_of_def
        dict_get_def dict_mem_def counter_get_def)
next
  case (reach_train m pairs)
  then show ?case by (simp add: train_single train_linked train_keyed)
next
  case (reach_word m w d m')
  from decode_word_total [of m w] reach_word.hyps(2) have e: "model_equiv m m'" by auto
  with reach_word.IH show ?case
    using single_chars_same counts_linked_same tables_keyed_equiv model_equiv_same_counts
    by blast
next
  case (reach_text m t d m')
  from decode_text_total [of m t] reach_text.hyps(2) have e: "model_equiv m m'" by auto
  with reach_text.IH show ?case
    using single_chars_same counts_linked_same tables_keyed_equiv model_equiv_same_counts
    by blast
qed

subsection \<open>Case mapping on Latin-1 and on ASCII text; case restoration\<close>

lemma code_of_inj: "(c = d) = (code_of c = code_of d)"
  by (simp add: code_of_def)

lemma code_of_lt: "code_of c < 256"
  by (simp add: code_of_def)

lemma is_upper_code:
  "is_upper_char c = (65 \<le> code_of c \<and> code_of c \<le> 90
      \<or> 192 \<le> code_of c \<and> code_of c \<le> 222 \<and> code_of c \<noteq> 215)"
  by (simp add: is_upper_char_def less_eq_char_def code_of_inj) (simp add: code_of_def)


lemma code_lower:
  "code_of (lower_char c) = (if is_upper_char c then code_of c + 32 else code_of c)"
proof (cases "is_upper_char c")
  case True
  then have "code_of c + 32 < 256" by (simp add: is_upper_code; arith)
  then have "(code_of c + 32) mod 256 = code_of c + 32" by simp
  with True show ?thesis by (simp add: lower_char_def code_of_def)
next
  case False
  then show ?thesis by (simp add: lower_char_def)
qed



lemma code_ascii_upper:
  "code_of (ascii_upper_char c)
     = (if 97 \<le> code_of c \<and> code_of c \<le> 122 then code_of c - 32 else code_of c)"
proof (cases "97 \<le> code_of c \<and> code_of c \<le> 122")
  case True
  have "code_of c - 32 < 256" using code_of_lt [of c] by arith
  then have "(code_of c - 32) mod 256 = code_of c - 32" by simp
  with True show ?thesis by (simp add: ascii_upper_char_def) (simp add: code_of_def)
next
  case False
  then show ?thesis by (auto simp: ascii_upper_char_def)
qed

lemma upper_char_ascii: "is_ascii c \<Longrightarrow> upper_char c = [ascii_upper_char c]"
  by (simp add: upper_char_def ascii_upper_char_def is_ascii_def less_eq_char_def
      code_of_inj [of c]) (auto simp: code_of_def)

lemma title_char_ascii: "is_ascii c \<Longrightarrow> title_char c = [ascii_upper_char c]"
  using upper_char_ascii [of c]
  by (simp add: title_char_def is_ascii_def code_of_inj [of c]) (auto simp: code_of_def)

lemma is_upper_ascii: "is_ascii c \<Longrightarrow> is_upper_char c = (65 \<le> code_of c \<and> code_of c \<le> 90)"
  by (simp add: is_upper_code is_ascii_def; arith)


lemma code_lower_ascii:
  "is_ascii c \<Longrightarrow>
   code_of (lower_char c) = (if 65 \<le> code_of c \<and> code_of c \<le> 90 then code_of c + 32 else code_of c)"
  by (simp add: code_lower is_upper_ascii)

lemma is_ascii_lower_char: "is_ascii c \<Longrightarrow> is_ascii (lower_char c)"
  using code_lower_ascii [of c] by (simp add: is_ascii_def; arith)

lemma is_ascii_upper_char: "is_ascii c \<Longrightarrow> is_ascii (ascii_upper_char c)"
  by (simp add: is_ascii_def code_ascii_upper; arith)










lemma ascii_Cons: "ascii (c # cs) = (is_ascii c \<and> ascii cs)"
  by (simp add: ascii_def)

lemma ascii_Nil: "ascii []"
  by (simp add: ascii_def)


lemma capitalize_ascii: "ascii (c # cs) \<Longrightarrow> capitalize (c # cs) = ascii_upper_char c # lower cs"
  by (simp add: ascii_Cons title_char_ascii)

lemma ascii_lower: "ascii s \<Longrightarrow> ascii (lower s)"
  by (simp add: ascii_def lower_def is_ascii_lower_char)


lemma ascii_capitalize: "ascii s \<Longrightarrow> ascii (capitalize s)"
proof (cases s)
  case Nil
  then show ?thesis by (simp add: ascii_Nil)
next
  case (Cons c cs)
  assume "ascii s"
  with Cons show ?thesis
    using ascii_lower [of cs]
    by (simp add: capitalize_ascii del: capitalize.simps) (simp add: ascii_Cons is_ascii_upper_char)
qed














lemma length_upper_char: "length (upper_char c) = (if c = CHR 0xDF then 2 else 1)"
  by (simp add: upper_char_def)

lemma length_title_char: "length (title_char c) = (if c = CHR 0xDF then 2 else 1)"
  by (simp add: title_char_def length_upper_char)

lemma length_upper: "CHR 0xDF \<notin> set d \<Longrightarrow> length (upper d) = length d"
  by (induction d) (auto simp: upper_def length_upper_char)

lemma length_capitalize: "CHR 0xDF \<notin> set d \<Longrightarrow> length (capitalize d) = length d"
  by (cases d) (auto simp: length_title_char lower_def)

lemma length_restore_case: "CHR 0xDF \<notin> set d \<Longrightarrow> length (restore_case w d) = length d"
  by (simp add: restore_case_def length_upper length_capitalize)

lemma length_concat_single: "\<forall>s \<in> set p. length s = 1 \<Longrightarrow> length (concat p) = length p"
  by (induction p) auto

lemma single_keeps_length:
  assumes "length s = 1" and "length (upper s) = length s"
  shows "CHR 0xDF \<notin> set s"
proof -
  from assms(1) obtain c where s: "s = [c]" by (cases s) auto
  with assms(2) show ?thesis by (auto simp: upper_def length_upper_char split: if_splits)
qed

subsection \<open>Length of the decoded word; ordering of the distributions\<close>

lemma reachable_the_model: "reachable the_model"
  using reach_train [OF reach_init, of the_pairs] by (simp add: train_the_pairs)

lemma sorted_sharp: "sorted_list_of_set {[CHR 0xDF]} = [[CHR 0xDF]]"
  by simp

lemma train_sharp: "train [([CHR 0xDF], ''a'')] init = sharp_model"
  by (simp add: str_defs dict_defs train_defs upt_rec enumerate_eq_zip sorted_sharp
      sharp_model_def)

lemma decode_sharp: "decode_word sharp_model ''A'' = Inr (''SS'', sharp_model)"
  by (simp add: sharp_model_def decode_defs str_defs dict_defs upt_rec)

text \<open>
  Counterexample to claim C10 as stated. After training on the single pair whose
  correct word is the sharp s (U+00DF) and whose typed word is a, the one-character
  word A decodes to the state sharp s, and because the word is uppercase the result
  is uppercased: it is the two-character string SS.
\<close>

theorem decode_word_length_counterexample:
  "decode_word (train [([CHR 0xDF], ''a'')] init) ''A''
     = Inr (''SS'', train [([CHR 0xDF], ''a'')] init)
   \<and> length ''A'' = 1 \<and> length ''SS'' = 2"
  by (simp add: train_sharp decode_sharp)

text \<open>
  Claim C10, amended. For every model that training and decoding can produce and in
  which no state changes its length when uppercased, \<open>decode_word\<close> returns a string
  of the same length as its argument, and raises nothing: the winning path has one
  single-character state for each observed position, and the fall-back branches
  return the word itself.
\<close>

theorem decode_word_length:
  assumes "reachable m" and "\<forall>s \<in> set (states m). length (upper s) = length s"
  shows "\<exists>d m'. decode_word m w = Inr (d, m') \<and> length d = length w"
proof (cases "w = [] \<or> states m = []")
  case True
  then show ?thesis by (auto simp: decode_word_def)
next
  case False
  from reachable_inv [OF assms(1)] have one: "\<forall>s \<in> set (states m). length s = 1"
    by (simp add: single_chars_def)
  from False decode_word_pair [of w m w] obtain m' where
    c: "decode_word m w = Inr (w, m') \<or>
        (\<exists>p. length p = length w \<and> set p \<subseteq> set (states m)
             \<and> decode_word m w = Inr (restore_case w (concat p), m'))"
    by auto
  then show ?thesis
  proof
    assume "decode_word m w = Inr (w, m')"
    then show ?thesis by simp
  next
    assume "\<exists>p. length p = length w \<and> set p \<subseteq> set (states m)
             \<and> decode_word m w = Inr (restore_case w (concat p), m')"
    then obtain p where p: "length p = length w" "set p \<subseteq> set (states m)"
      "decode_word m w = Inr (restore_case w (concat p), m')" by blast
    from p(2) one have s1: "\<forall>s \<in> set p. length s = 1" by auto
    then have l: "length (concat p) = length w" using p(1) by (simp add: length_concat_single)
    have "\<forall>s \<in> set p. CHR 0xDF \<notin> set s"
      using p(2) one assms(2) single_keeps_length by blast
    then have "CHR 0xDF \<notin> set (concat p)" by auto
    then have "length (restore_case w (concat p)) = length w"
      using l by (simp add: length_restore_case)
    with p(3) show ?thesis by simp
  qed
qed

theorem decode_word_length_witness:
  "reachable the_model
   \<and> states the_model = [''e'', ''h'', ''t'']
   \<and> length (upper ''e'') = 1 \<and> length (upper ''h'') = 1 \<and> length (upper ''t'') = 1
   \<and> (\<exists>d m'. decode_word the_model ''Teh'' = Inr (d, m') \<and> length d = length ''Teh'')"
proof -
  have s: "states the_model = [''e'', ''h'', ''t'']" by (simp add: the_model_def)
  have u: "length (upper ''e'') = 1" "length (upper ''h'') = 1" "length (upper ''t'') = 1"
    by (simp_all add: upper_def length_upper_char)
  have h: "\<forall>s \<in> set (states the_model). length (upper s) = length s"
    using u by (simp add: s)
  from decode_word_length [OF reachable_the_model h, of "''Teh''"] s u reachable_the_model
  show ?thesis by simp
qed

lemma score_ge_trans: "\<not> score_gt b a \<Longrightarrow> \<not> score_gt c b \<Longrightarrow> \<not> score_gt c a"
  by (cases a; cases b; cases c) auto

lemma score_gt_asym: "score_gt a b \<Longrightarrow> \<not> score_gt b a"
  by (cases a; cases b) auto

lemma set_insert_desc: "set (insert_desc x ys) = insert x (set ys)"
  by (induction ys) auto

lemma sorted_insert_desc:
  "sorted_wrt (\<lambda>a b. \<not> score_gt (snd b) (snd a)) ys \<Longrightarrow>
   sorted_wrt (\<lambda>a b. \<not> score_gt (snd b) (snd a)) (insert_desc x ys)"
proof (induction ys)
  case Nil
  then show ?case by simp
next
  case (Cons y ys)
  show ?case
  proof (cases "score_gt (snd y) (snd x)")
    case True
    then have "\<not> score_gt (snd x) (snd y)" by (rule score_gt_asym)
    with True Cons show ?thesis by (auto simp: set_insert_desc)
  next
    case False
    have "\<forall>z \<in> set ys. \<not> score_gt (snd z) (snd x)"
      using False Cons.prems score_ge_trans by auto
    with False Cons.prems show ?thesis by simp
  qed
qed

lemma sorted_desc_sorted: "sorted_wrt (\<lambda>a b. \<not> score_gt (snd b) (snd a)) (sorted_desc xs)"
  unfolding sorted_desc_def by (induction xs) (simp_all add: sorted_insert_desc)

lemma sorted_desc_nonincreasing: "nonincreasing (map snd (sorted_desc xs))"
  using sorted_desc_sorted [of xs] by (simp add: nonincreasing_def sorted_wrt_map)

text \<open>
  Claim C6. For every model that training and decoding can produce and every string
  \<open>s\<close>, both inspectors return their entries in non-increasing order of the
  log-probability, and return the empty list when \<open>s\<close> is not a state of the
  alphabet or has no recorded row in the corresponding count table.
\<close>

theorem distributions_sorted:
  assumes "reachable m"
  shows "nonincreasing (map snd (transition_log_distribution m s))
     \<and> nonincreasing (map snd (emission_log_distribution m s))
     \<and> (s \<notin> set (states m) \<or> row_of (transition_counts m) s = []
          \<longrightarrow> transition_log_distribution m s = [])
     \<and> (s \<notin> set (states m) \<or> row_of (emission_counts m) s = []
          \<longrightarrow> emission_log_distribution m s = [])"
proof -
  from reachable_inv [OF assms] have l: "counts_linked m" and k: "tables_keyed m" by auto
  have t: "dict_get (transition_log_probs m) s = None"
    if "s \<notin> set (states m) \<or> row_of (transition_counts m) s = []"
    using that l k by (auto simp: counts_linked_def tables_keyed_def dict_mem_get)
  have e: "dict_get (emission_log_probs m) s = None"
    if "s \<notin> set (states m) \<or> row_of (emission_counts m) s = []"
    using that l k by (auto simp: counts_linked_def tables_keyed_def dict_mem_get)
  have a: "nonincreasing (map snd (transition_log_distribution m s))"
    by (simp add: transition_log_distribution_def sorted_desc_nonincreasing)
  have b: "nonincreasing (map snd (emission_log_distribution m s))"
    by (simp add: emission_log_distribution_def sorted_desc_nonincreasing)
  have c: "transition_log_distribution m s = []"
    if "s \<notin> set (states m) \<or> row_of (transition_counts m) s = []"
    using t [OF that] by (simp add: transition_log_distribution_def sorted_desc_def)
  have d: "emission_log_distribution m s = []"
    if "s \<notin> set (states m) \<or> row_of (emission_counts m) s = []"
    using e [OF that] by (simp add: emission_log_distribution_def sorted_desc_def)
  from a b c d show ?thesis by blast
qed

theorem distributions_sorted_witness:
  "reachable the_model
   \<and> emission_log_distribution the_model ''e'' = [(''e'', Fin (ln (2 / 3))), (''h'', Fin (ln (1 / 3)))]
   \<and> nonincreasing [Fin (ln (2 / 3)), Fin (ln (1 / 3))]
   \<and> ''x'' \<notin> set (states the_model)
   \<and> transition_log_distribution the_model ''x'' = []
   \<and> emission_log_distribution the_model ''x'' = []"
proof -
  have x: "''x'' \<notin> set (states the_model)" by (simp add: the_model_def)
  from distributions_sorted [OF reachable_the_model, of "''e''"]
    distributions_sorted [OF reachable_the_model, of "''x''"] x
  show ?thesis by (simp add: reachable_the_model emission_the_e)
qed


subsection \<open>Case preservation and the effect of decoding on the count tables\<close>


lemma sorted_ab: "sorted_list_of_set {''a'', ''b''} = [''a'', ''b'']"
  by (simp add: sorted_list_of_set_insert_remove)

lemma train_short: "train [(''ab'', ''a'')] init = short_model"
  by (simp add: str_defs dict_defs train_defs upt_rec enumerate_eq_zip insert_Diff_if sorted_ab
      short_model_def)



text \<open>
  Claim C3, evaluated where it fails. After training on the single pair (ab, a) the
  state b has no row in the emission count table. Decoding the word a reads
  \<open>self.emission_counts["b"]\<close> on the cache miss of \<open>_log_emission_prob\<close>; the
  table is a \<open>defaultdict\<close>, so the read stores an empty row under b and the model
  after the call differs from the model before it.
\<close>

theorem decode_word_adds_row:
  "emission_counts (train [(''ab'', ''a'')] init) = [(''a'', [(''a'', 1)])]
   \<and> decode_word (train [(''ab'', ''a'')] init) ''a''
       = Inr (''a'', (train [(''ab'', ''a'')] init)
                       \<lparr> emission_counts := [(''a'', [(''a'', 1)]), (''b'', [])] \<rparr>)"
  by (simp add: train_short) (simp add: short_model_def decode_defs str_defs dict_defs upt_rec)



subsection \<open>Surplus typed characters; repeated training\<close>

lemma zip_take_left: "zip xs (take (length xs) ys) = zip xs ys"
proof (induction xs arbitrary: ys)
  case Nil
  then show ?case by simp
next
  case (Cons x xs)
  then show ?case by (cases ys) simp_all
qed

lemma chars_take: "chars (take n s) = take n (chars s)"
  by (simp add: chars_def take_map)

lemma length_chars: "length (chars s) = length s"
  by (simp add: chars_def)

lemma train_pair_prefix:
  assumes "length (lower (strip c)) < length (lower (strip t))"
    and "length (lower (strip c)) \<le> length (lower (strip t'))"
    and "take (length (lower (strip c))) (lower (strip t'))
           = take (length (lower (strip c))) (lower (strip t))"
  shows "train_pair m (c, t') = train_pair m (c, t)"
proof -
  define n where "n = length (lower (strip c))"
  have s: "skipped (c, t') = skipped (c, t)"
    using assms(1,2) by (auto simp: skipped_def)
  have "zip (chars (lower (strip c))) (chars (lower (strip t')))
          = zip (chars (lower (strip c))) (take n (chars (lower (strip t'))))"
    by (simp add: n_def zip_take_left [of "chars (lower (strip c))", simplified length_chars])
  also have "\<dots> = zip (chars (lower (strip c))) (take n (chars (lower (strip t))))"
    using assms(3) by (simp add: n_def chars_take [symmetric])
  also have "\<dots> = zip (chars (lower (strip c))) (chars (lower (strip t)))"
    by (simp add: n_def zip_take_left [of "chars (lower (strip c))", simplified length_chars])
  finally have z: "zip (chars (lower (strip c))) (chars (lower (strip t')))
          = zip (chars (lower (strip c))) (chars (lower (strip t)))" .
  have k: "take (length (lower (strip t'))) (chars (lower (strip c)))
          = take (length (lower (strip t))) (chars (lower (strip c)))"
    using assms(1,2) by (simp add: length_chars)
  show ?thesis
    using s z k by (simp add: train_pair_explicit Let_def)
qed

text \<open>
  Claim C9. When the typed string of a training pair is strictly longer than the
  correct string (both trimmed and lowercased), its characters at positions at or
  beyond the length of the correct string contribute nothing: any typed string that
  is at least as long as the correct one and agrees with it on those first
  positions trains to the same model, whatever pairs come before and after, and the
  emissions recorded for the pair are exactly the aligned pairs of the first
  positions.
\<close>

theorem extra_typed_ignored:
  assumes "length (lower (strip c)) < length (lower (strip t))"
    and "length (lower (strip c)) \<le> length (lower (strip t'))"
    and "take (length (lower (strip c))) (lower (strip t'))
           = take (length (lower (strip c))) (lower (strip t))"
  shows "train (ps @ (c, t') # qs) m = train (ps @ (c, t) # qs) m
     \<and> emission_counts (train_pair m (c, t))
         = incr_pairs (emission_counts m)
             (zip (chars (lower (strip c)))
                  (chars (take (length (lower (strip c))) (lower (strip t)))))"
proof -
  have "train (ps @ (c, t') # qs) m = train (ps @ (c, t) # qs) m"
    by (simp add: train_def train_pair_prefix [OF assms])
  moreover have "emission_counts (train_pair m (c, t))
         = incr_pairs (emission_counts m)
             (zip (chars (lower (strip c)))
                  (chars (take (length (lower (strip c))) (lower (strip t)))))"
  proof (cases "skipped (c, t)")
    case True
    with assms(1) have "lower (strip c) = []" by (auto simp: skipped_def)
    with True show ?thesis by (simp add: train_pair_explicit chars_def)
  next
    case False
    then show ?thesis
      by (simp add: train_pair_explicit Let_def chars_take
          zip_take_left [of "chars (lower (strip c))", simplified length_chars])
  qed
  ultimately show ?thesis by blast
qed

theorem extra_typed_ignored_witness:
  "length (lower (strip ''ab'')) < length (lower (strip ''abcd''))
   \<and> train [(''ab'', ''abxyz'')] init = train [(''ab'', ''abcd'')] init
   \<and> emission_counts (train_pair init (''ab'', ''abcd''))
        = [(''a'', [(''a'', 1)]), (''b'', [(''b'', 1)])]"
proof -
  have e: "nested_incr (nested_incr [] ''a'' ''a'') ''b'' ''b''
             = [(''a'', [(''a'', 1)]), (''b'', [(''b'', 1)])]"
    by (simp add: dict_defs)
  have h: "lower (strip ''ab'') = ''ab''" "lower (strip ''abcd'') = ''abcd''"
    "lower (strip ''abxyz'') = ''abxyz''"
    by (simp_all add: str_defs)
  have i: "emission_counts init = []" by (simp add: init_def)
  from extra_typed_ignored [of "''ab''" "''abcd''" "''abxyz''" "[]" "[]" init]
  show ?thesis by (simp add: h chars_def e i)
qed

lemma finalize_transition_counts:
  "counts_linked m \<Longrightarrow> transition_counts (finalize_transition m s) = transition_counts m"
  by (auto simp: finalize_transition_def Let_def case_prod_beta counts_linked_def row_of_def
      defaultdict_getitem_def split: option.splits)

lemma finalize_emission_counts:
  "counts_linked m \<Longrightarrow> emission_counts (finalize_emission m s) = emission_counts m"
  by (auto simp: finalize_emission_def Let_def case_prod_beta counts_linked_def row_of_def
      defaultdict_getitem_def split: option.splits)

lemma finalize_transition_fold_counts:
  "counts_linked m \<Longrightarrow>
   transition_counts (foldl finalize_transition m xs) = transition_counts m
   \<and> emission_counts (foldl finalize_transition m xs) = emission_counts m"
proof (induction xs arbitrary: m)
  case Nil
  then show ?case by simp
next
  case (Cons x xs)
  have l: "counts_linked (finalize_transition m x)"
    using Cons.prems finalize_transition_same counts_linked_same by blast
  have e: "emission_counts (finalize_transition m x) = emission_counts m"
    by (simp add: finalize_transition_def Let_def case_prod_beta)
  from Cons.IH [OF l] finalize_transition_counts [OF Cons.prems, of x] e
  show ?case by simp
qed

lemma finalize_emission_fold_counts:
  "counts_linked m \<Longrightarrow>
   transition_counts (foldl finalize_emission m xs) = transition_counts m
   \<and> emission_counts (foldl finalize_emission m xs) = emission_counts m"
proof (induction xs arbitrary: m)
  case Nil
  then show ?case by simp
next
  case (Cons x xs)
  have l: "counts_linked (finalize_emission m x)"
    using Cons.prems finalize_emission_same counts_linked_same by blast
  have e: "transition_counts (finalize_emission m x) = transition_counts m"
    by (simp add: finalize_emission_def Let_def case_prod_beta)
  from Cons.IH [OF l] finalize_emission_counts [OF Cons.prems, of x] e
  show ?case by simp
qed

lemma finalize_start_fold_counts:
  "transition_counts (foldl finalize_start m xs) = transition_counts m
   \<and> emission_counts (foldl finalize_start m xs) = emission_counts m"
  by (induction xs arbitrary: m) (simp_all add: finalize_start_def Let_def)

lemma finalize_counts:
  assumes "counts_linked m"
  shows "transition_counts (finalize_probabilities m) = transition_counts m
     \<and> emission_counts (finalize_probabilities m) = emission_counts m"
proof -
  define m0 where "m0 = m\<lparr> start_log_probs := [], transition_log_probs := [], emission_log_probs := [] \<rparr>"
  define m1 where "m1 = foldl finalize_start m0 (states m0)"
  define m2 where "m2 = foldl finalize_transition m1 (states m1)"
  define m3 where "m3 = foldl finalize_emission m2 (states m2)"
  have c0: "transition_counts m0 = transition_counts m" "emission_counts m0 = emission_counts m"
    by (simp_all add: m0_def)
  have l0: "counts_linked m0" using assms by (simp add: m0_def counts_linked_def)
  have s1: "same_counts m0 m1" unfolding m1_def by (rule foldl_same_counts) (rule finalize_start_same)
  have s2: "same_counts m1 m2" unfolding m2_def by (rule foldl_same_counts) (rule finalize_transition_same)
  have l1: "counts_linked m1" using l0 s1 by (rule counts_linked_same)
  have l2: "counts_linked m2" using l1 s2 by (rule counts_linked_same)
  have c1: "transition_counts m1 = transition_counts m0" "emission_counts m1 = emission_counts m0"
    by (simp_all add: m1_def finalize_start_fold_counts)
  have c2: "transition_counts m2 = transition_counts m1" "emission_counts m2 = emission_counts m1"
    using finalize_transition_fold_counts [OF l1] by (simp_all add: m2_def)
  have c3: "transition_counts m3 = transition_counts m2" "emission_counts m3 = emission_counts m2"
    using finalize_emission_fold_counts [OF l2] by (simp_all add: m3_def)
  show ?thesis
    by (simp add: finalize_unfold [OF m0_def m1_def m2_def m3_def] c0 c1 c2 c3)
qed

lemma finalize_frame:
  assumes "counts_linked m"
  shows "finalize_probabilities m =
           m\<lparr> start_log_probs := start_log_probs (finalize_probabilities m),
              transition_log_probs := transition_log_probs (finalize_probabilities m),
              emission_log_probs := emission_log_probs (finalize_probabilities m) \<rparr>"
  using finalize_same [of m] finalize_counts [OF assms]
  by (intro model.equality) (simp_all add: same_counts_def)

lemma finalize_ignores_logs:
  "finalize_probabilities (m\<lparr> start_log_probs := x, transition_log_probs := y,
                               emission_log_probs := z \<rparr>) = finalize_probabilities m"
  by (simp add: finalize_probabilities_def)

lemma finalize_ignores_logs_first:
  "finalize_probabilities (m\<lparr> start_log_probs := x, transition_log_probs := y,
                               emission_log_probs := z, state_set := S, states := st \<rparr>)
     = finalize_probabilities (m\<lparr> state_set := S, states := st \<rparr>)"
  by (simp add: finalize_probabilities_def)

lemma train_pair_commute:
  "train_pair (m\<lparr> state_set := S, states := st, start_log_probs := x,
                   transition_log_probs := y, emission_log_probs := z \<rparr>) p
     = (train_pair m p)\<lparr> state_set := S \<union> new_states p, states := st, start_log_probs := x,
                          transition_log_probs := y, emission_log_probs := z \<rparr>"
  by (simp add: train_pair_explicit new_states_def Let_def)

lemma train_fold_commute:
  "foldl train_pair (m\<lparr> state_set := S, states := st, start_log_probs := x,
                         transition_log_probs := y, emission_log_probs := z \<rparr>) ps
     = (foldl train_pair m ps)\<lparr> state_set := S \<union> (\<Union>p \<in> set ps. new_states p), states := st,
           start_log_probs := x, transition_log_probs := y, emission_log_probs := z \<rparr>"
proof (induction ps arbitrary: m S)
  case Nil
  then show ?case by simp
next
  case (Cons p ps)
  show ?case by (simp add: train_pair_commute Cons.IH Un_assoc)
qed

lemma train_twice:
  assumes "counts_linked m"
  shows "train ps2 (train ps1 m) = train (ps1 @ ps2) m"
proof -
  define a where "a = foldl train_pair m ps1"
  define S1 where "S1 = state_set a - {[CHR 0x0A]}"
  define m3 where "m3 = a\<lparr> state_set := S1, states := sorted_list_of_set S1 \<rparr>"
  define N2 where "N2 = (\<Union>p \<in> set ps2. new_states p)"
  define b where "b = foldl train_pair a ps2"
  have la: "counts_linked a" using assms by (simp add: a_def train_fold_linked)
  then have l3: "counts_linked m3" by (simp add: m3_def counts_linked_def)
  have t1: "train ps1 m = finalize_probabilities m3"
    by (simp add: train_def Let_def a_def S1_def m3_def)
  obtain x y z where f: "finalize_probabilities m3
      = a\<lparr> state_set := S1, states := sorted_list_of_set S1, start_log_probs := x,
            transition_log_probs := y, emission_log_probs := z \<rparr>"
    using finalize_frame [OF l3] by (simp add: m3_def)
  have c: "foldl train_pair (train ps1 m) ps2
      = b\<lparr> state_set := S1 \<union> N2, states := sorted_list_of_set S1, start_log_probs := x,
            transition_log_probs := y, emission_log_probs := z \<rparr>"
    by (simp add: t1 f train_fold_commute N2_def b_def)
  have sb: "state_set b = state_set a \<union> N2"
    by (simp add: b_def N2_def train_fold_state_set)
  have T: "S1 \<union> N2 - {[CHR 0x0A]} = state_set b - {[CHR 0x0A]}"
    by (auto simp: sb S1_def)
  have "train ps2 (train ps1 m)
      = finalize_probabilities
          (b\<lparr> start_log_probs := x, transition_log_probs := y, emission_log_probs := z,
               state_set := state_set b - {[CHR 0x0A]},
               states := sorted_list_of_set (state_set b - {[CHR 0x0A]}) \<rparr>)"
    by (simp add: train_def [of ps2] Let_def c T)
  also have "\<dots> = finalize_probabilities
          (b\<lparr> state_set := state_set b - {[CHR 0x0A]},
               states := sorted_list_of_set (state_set b - {[CHR 0x0A]}) \<rparr>)"
    by (rule finalize_ignores_logs_first)
  also have "\<dots> = train (ps1 @ ps2) m"
    by (simp add: train_def Let_def a_def b_def)
  finally show ?thesis .
qed

lemma counts_linked_init: "counts_linked init"
  by (simp add: init_def counts_linked_def row_of_def dict_get_def counter_get_def)

text \<open>
  Claim C8. On a fresh model, training on a first sequence of pairs and then on a
  second one gives the same model (alphabet, counts and finalised log-probability
  tables) as training once on the concatenation of the two sequences.
\<close>

theorem train_accumulates: "train ps2 (train ps1 init) = train (ps1 @ ps2) init"
  using counts_linked_init by (rule train_twice)

theorem train_accumulates_witness:
  "train [(''the'', ''the'')] (train [(''the'', ''the''), (''the'', ''teh'')] init) = the_model"
  using train_accumulates [of "[(''the'', ''the'')]" "[(''the'', ''the''), (''the'', ''teh'')]"]
    train_the_pairs by (simp add: the_pairs_def)

subsection \<open>The counts of training match the specification\<close>
















end
